theory Spec2Isabelle
  imports
    Main
    "HOL-Library.AList"
    "HOL-Library.Word"
    "HOL-Library.Char_ord"
    "HOL-Library.List_Lexorder"
    "HOL-Library.Product_Lexorder"
begin

section \<open>Payload values\<close>

text \<open>
  The payload of a state block is a JavaScript value: what \<^verbatim>\<open>codec.decode\<close> returns and
  what the hooks pass in. Objects are association lists in insertion order with
  \<^const>\<open>AList.update\<close> as property assignment (an existing key keeps its place, a new key
  goes last); a JavaScript object never holds a key twice, which \<open>wf_value\<close> states.
  Numbers are the integers (safe integers and BigInts); floating point numbers, byte
  arrays and functions are not part of the model. Strings are byte strings (UTF-8).
\<close>

datatype jvalue =
    JUndefined
  | JNull
  | JBool bool
  | JInt int
  | JStr string
  | JArr "jvalue list"
  | JObj "(string \<times> jvalue) list"

type_synonym jobject = "(string \<times> jvalue) list"

text \<open>\<^verbatim>\<open>if (v)\<close>: JavaScript truthiness.\<close>

fun truthy :: "jvalue \<Rightarrow> bool" where
  "truthy JUndefined = False"
| "truthy JNull = False"
| "truthy (JBool b) = b"
| "truthy (JInt i) = (i \<noteq> 0)"
| "truthy (JStr s) = (s \<noteq> [])"
| "truthy (JArr xs) = True"
| "truthy (JObj kvs) = True"

text \<open>\<^verbatim>\<open>obj[k]\<close> on an object: a missing key reads as \<^verbatim>\<open>undefined\<close>.\<close>

definition readKey :: "jobject \<Rightarrow> string \<Rightarrow> jvalue" where
  "readKey obj k = (case map_of obj k of None \<Rightarrow> JUndefined | Some v \<Rightarrow> v)"

text \<open>\<^verbatim>\<open>v[k]\<close> on any value that is not null or undefined; only objects have named
  properties in the model (a primitive or an array reads \<^verbatim>\<open>undefined\<close>).\<close>

fun getProp :: "jvalue \<Rightarrow> string \<Rightarrow> jvalue" where
  "getProp (JObj kvs) k = readKey kvs k"
| "getProp v k = JUndefined"

fun wf_value :: "jvalue \<Rightarrow> bool" where
  "wf_value (JArr xs) = list_all wf_value xs"
| "wf_value (JObj kvs) = (distinct (map fst kvs) \<and> list_all (\<lambda>kv. wf_value (snd kv)) kvs)"
| "wf_value v = True"

section \<open>The deep merge: lodash \<^verbatim>\<open>_.merge\<close>\<close>

text \<open>
  \<^verbatim>\<open>_.merge(object, source)\<close> is called by \<^verbatim>\<open>prepareIPLDBlock\<close> and \<^verbatim>\<open>createCheckpoint\<close>.
  It runs lodash's \<^verbatim>\<open>baseMerge\<close> over the keys of the source (the indices, for an array):
  a source value that is an array or an object goes through \<^verbatim>\<open>baseMergeDeep\<close>, which
  merges it recursively into the destination's value at the same key when that is an
  array (for an array or an object source) or an object (for an object source), and into
  a fresh \<^verbatim>\<open>[]\<close> or \<^verbatim>\<open>{}\<close> otherwise; any other source value is assigned
  (\<^verbatim>\<open>assignMergeValue\<close>), except that \<^verbatim>\<open>undefined\<close> never replaces an existing entry.

  \<open>mergeValue ov sv\<close> is the value of the destination at a key after the step for that
  key, from the value \<open>ov\<close> it had before (\<open>JUndefined\<close> when the key was missing) and the
  source's value \<open>sv\<close>. The result \<open>None\<close> marks the combinations whose result in lodash
  is not a payload value of the model: an object merged into an array (the array gets
  named properties) and an array merged into an array-like object (an object with a
  numeric \<^verbatim>\<open>length\<close>).
\<close>

definition isArrayLike :: "jobject \<Rightarrow> bool" where
  "isArrayLike kvs =
     (case map_of kvs ''length'' of
        Some (JInt n) \<Rightarrow> 0 \<le> n \<and> n \<le> 9007199254740991
      | _ \<Rightarrow> False)"

text \<open>The destination \<^verbatim>\<open>baseMergeDeep\<close> merges an array source into
  (\<^verbatim>\<open>objValue\<close> when it is an array, else \<^verbatim>\<open>[]\<close>) and the one it merges an object source
  into (\<^verbatim>\<open>objValue\<close> when it is an object, else \<^verbatim>\<open>{}\<close>).\<close>

definition arrayDest :: "jvalue \<Rightarrow> jvalue list option" where
  "arrayDest ov =
     (case ov of
        JArr os \<Rightarrow> Some os
      | JObj okv \<Rightarrow> if isArrayLike okv then None else Some []
      | _ \<Rightarrow> Some [])"

definition objectDest :: "jvalue \<Rightarrow> jobject option" where
  "objectDest ov =
     (case ov of
        JObj okv \<Rightarrow> Some okv
      | JArr os \<Rightarrow> None
      | _ \<Rightarrow> Some [])"

function mergeValue :: "jvalue \<Rightarrow> jvalue \<Rightarrow> jvalue option"
  and baseMerge_obj :: "jobject \<Rightarrow> jobject \<Rightarrow> jobject option"
  and baseMerge_arr :: "jvalue list \<Rightarrow> jvalue list \<Rightarrow> jvalue list option"
where
  "mergeValue ov (JArr ss) =
     (case arrayDest ov of
        None \<Rightarrow> None
      | Some os \<Rightarrow> map_option JArr (baseMerge_arr os ss))"
| "mergeValue ov (JObj skv) =
     (case objectDest ov of
        None \<Rightarrow> None
      | Some okv \<Rightarrow> map_option JObj (baseMerge_obj okv skv))"
| "mergeValue ov JUndefined = Some ov"
| "mergeValue ov JNull = Some JNull"
| "mergeValue ov (JBool b) = Some (JBool b)"
| "mergeValue ov (JInt i) = Some (JInt i)"
| "mergeValue ov (JStr s) = Some (JStr s)"
| "baseMerge_obj obj [] = Some obj"
| "baseMerge_obj obj (kv # src) =
     (case mergeValue (readKey obj (fst kv)) (snd kv) of
        None \<Rightarrow> None
      | Some nv \<Rightarrow> baseMerge_obj (AList.update (fst kv) nv obj) src)"
| "baseMerge_arr os [] = Some os"
| "baseMerge_arr os (sv # ss) =
     (case mergeValue (case os of [] \<Rightarrow> JUndefined | ov # _ \<Rightarrow> ov) sv of
        None \<Rightarrow> None
      | Some nv \<Rightarrow> map_option ((#) nv) (baseMerge_arr (tl os) ss))"
  by pat_completeness auto
termination
  by (relation "measure (\<lambda>x. case x of
        Inl (ov, sv) \<Rightarrow> 2 * size sv
      | Inr (Inl (obj, src)) \<Rightarrow> 2 * size_list (size_prod (\<lambda>_. 0) size) src + 1
      | Inr (Inr (os, ss)) \<Rightarrow> 2 * size_list size ss + 1)") auto

text \<open>
  The call \<^verbatim>\<open>_.merge(object, source)\<close> itself: the destination is \<^verbatim>\<open>Object(object)\<close>
  (a fresh \<^verbatim>\<open>{}\<close> for null and undefined), a falsy source is skipped, and a number or
  \<^verbatim>\<open>true\<close> has no keys to merge. \<open>None\<close> as above, and for a primitive destination
  (a boxed primitive), a string source and an array merged into an object.
\<close>

definition lodash_merge :: "jvalue \<Rightarrow> jvalue \<Rightarrow> jvalue option" where
  "lodash_merge object source =
     (case (case object of
              JUndefined \<Rightarrow> Some (JObj [])
            | JNull \<Rightarrow> Some (JObj [])
            | JObj okv \<Rightarrow> Some (JObj okv)
            | JArr os \<Rightarrow> Some (JArr os)
            | _ \<Rightarrow> None) of
        None \<Rightarrow> None
      | Some obj \<Rightarrow>
          if \<not> truthy source then Some obj
          else (case source of
                  JObj skv \<Rightarrow> (case obj of JObj okv \<Rightarrow> map_option JObj (baseMerge_obj okv skv) | _ \<Rightarrow> None)
                | JArr ss \<Rightarrow> (case obj of JArr os \<Rightarrow> map_option JArr (baseMerge_arr os ss) | _ \<Rightarrow> None)
                | JStr s \<Rightarrow> None
                | _ \<Rightarrow> Some obj))"

section \<open>Content addressing\<close>

text \<open>
  \<^verbatim>\<open>prepareIPLDBlock\<close> encodes the payload with \<^verbatim>\<open>codec.encode\<close> of \<^verbatim>\<open>@ipld/dag-cbor\<close>,
  hashes the bytes with \<^verbatim>\<open>sha256.digest\<close> and builds \<^verbatim>\<open>CID.create(1, codec.code, hash)\<close>.
  The encoder is DAG-CBOR: a head byte with the major type and the length or value in
  the shortest of the 1, 2, 4 and 8 byte forms, map entries ordered by key length and
  then bytewise, \<^verbatim>\<open>undefined\<close> and integers outside 64 bits refused.
\<close>

type_synonym byte = "8 word"

definition be_bytes :: "nat \<Rightarrow> nat \<Rightarrow> byte list" where
  "be_bytes k n = map (\<lambda>i. of_nat (n div 256 ^ i)) (rev [0..<k])"

definition cbor_head :: "nat \<Rightarrow> nat \<Rightarrow> byte list" where
  "cbor_head major n =
     (if n < 24 then [of_nat (32 * major + n)]
      else if n < 256 then of_nat (32 * major + 24) # be_bytes 1 n
      else if n < 65536 then of_nat (32 * major + 25) # be_bytes 2 n
      else if n < 4294967296 then of_nat (32 * major + 26) # be_bytes 4 n
      else of_nat (32 * major + 27) # be_bytes 8 n)"

definition cbor_text :: "string \<Rightarrow> byte list" where
  "cbor_text s = cbor_head 3 (length s) @ map of_char s"

text \<open>The order of the keys of a map: shorter keys first, keys of one length bytewise.\<close>

definition key_order :: "string \<times> 'a \<Rightarrow> nat \<times> string" where
  "key_order e = (length (fst e), fst e)"

definition cbor_map :: "(string \<times> byte list) list \<Rightarrow> byte list" where
  "cbor_map es =
     cbor_head 5 (length es) @
     concat (map (\<lambda>e. cbor_text (fst e) @ snd e) (sort_key key_order es))"

function dag_cbor_encode :: "jvalue \<Rightarrow> byte list option"
  and encode_items :: "jvalue list \<Rightarrow> byte list option"
  and encode_entries :: "jobject \<Rightarrow> (string \<times> byte list) list option"
where
  "dag_cbor_encode JUndefined = None"
| "dag_cbor_encode JNull = Some [0xf6]"
| "dag_cbor_encode (JBool b) = Some [if b then 0xf5 else 0xf4]"
| "dag_cbor_encode (JInt i) =
     (if 0 \<le> i \<and> i < 18446744073709551616 then Some (cbor_head 0 (nat i))
      else if - 18446744073709551616 \<le> i \<and> i < 0 then Some (cbor_head 1 (nat (- 1 - i)))
      else None)"
| "dag_cbor_encode (JStr s) = Some (cbor_text s)"
| "dag_cbor_encode (JArr xs) = map_option (\<lambda>bs. cbor_head 4 (length xs) @ bs) (encode_items xs)"
| "dag_cbor_encode (JObj kvs) = map_option cbor_map (encode_entries kvs)"
| "encode_items [] = Some []"
| "encode_items (x # xs) =
     (case dag_cbor_encode x of
        None \<Rightarrow> None
      | Some b \<Rightarrow> map_option ((@) b) (encode_items xs))"
| "encode_entries [] = Some []"
| "encode_entries (kv # kvs) =
     (case dag_cbor_encode (snd kv) of
        None \<Rightarrow> None
      | Some b \<Rightarrow> map_option ((#) (fst kv, b)) (encode_entries kvs))"
  by pat_completeness auto
termination
  by (relation "measure (\<lambda>x. case x of
        Inl v \<Rightarrow> 2 * size v
      | Inr (Inl xs) \<Rightarrow> 2 * size_list size xs + 1
      | Inr (Inr kvs) \<Rightarrow> 2 * size_list (size_prod (\<lambda>_. 0) size) kvs + 1)") auto

text \<open>
  The identifier: version 1, the codec's code \<open>0x71\<close>, and the multihash of the digest
  (\<open>0x12\<close> for sha2-256, the digest's length, the digest). \<^verbatim>\<open>cid.toString()\<close> of a
  version 1 identifier is the letter b and the lower-case base32 text, without padding,
  of these bytes. The digest function itself is a parameter of the model (\<open>sha256\<close>
  below): nothing here depends on what it computes.
\<close>

definition dag_cbor_code :: nat where
  "dag_cbor_code = 0x71"

record CID =
  version :: nat
  code :: nat
  multihash :: "byte list"

definition sha256_digest :: "(byte list \<Rightarrow> byte list) \<Rightarrow> byte list \<Rightarrow> byte list" where
  "sha256_digest h bytes = 0x12 # of_nat (length (h bytes)) # h bytes"

definition CID_create :: "nat \<Rightarrow> nat \<Rightarrow> byte list \<Rightarrow> CID" where
  "CID_create v c mh = \<lparr>version = v, code = c, multihash = mh\<rparr>"

definition base32_alphabet :: string where
  "base32_alphabet = ''abcdefghijklmnopqrstuvwxyz234567''"

definition bits_of :: "byte list \<Rightarrow> bool list" where
  "bits_of bs = concat (map (\<lambda>b. map (bit b) (rev [0..<8])) bs)"

definition base32 :: "byte list \<Rightarrow> string" where
  "base32 bs =
     (let bits = bits_of bs in
      map (\<lambda>i. base32_alphabet !
                 foldl (\<lambda>a b. 2 * a + (if b then 1 else 0)) 0
                   (take 5 (drop (5 * i) bits @ replicate 4 False)))
          [0..<(length bits + 4) div 5])"

definition CID_toString :: "CID \<Rightarrow> string" where
  "CID_toString c = CHR ''b'' # base32 (of_nat (version c) # of_nat (code c) # multihash c)"

text \<open>The identifier of a payload, as lines 452 to 459 of the indexer compute it; \<open>None\<close>
  when the encoder throws.\<close>

definition computeCid :: "(byte list \<Rightarrow> byte list) \<Rightarrow> jvalue \<Rightarrow> CID option" where
  "computeCid h v =
     (case dag_cbor_encode v of
        None \<Rightarrow> None
      | Some bytes \<Rightarrow> Some (CID_create 1 dag_cbor_code (sha256_digest h bytes)))"

section \<open>The store\<close>

text \<open>
  The kind of a state block is a string, \<^verbatim>\<open>'diff'\<close>, \<^verbatim>\<open>'checkpoint'\<close> or \<^verbatim>\<open>'diff_staged'\<close>
  (\<^verbatim>\<open>kind: string\<close> in the entity and in every signature). The kind of a row is written
  from \<^verbatim>\<open>data.meta.kind\<close>, a value of the payload, so kinds are payload values here.
\<close>

type_synonym StateKind = jvalue

abbreviation Diff :: StateKind where
  "Diff \<equiv> JStr ''diff''"

abbreviation Checkpoint :: StateKind where
  "Checkpoint \<equiv> JStr ''checkpoint''"

abbreviation DiffStaged :: StateKind where
  "DiffStaged \<equiv> JStr ''diff_staged''"

record BlockProgress =
  blockCid :: string
  blockHash :: string
  blockNumber :: int
  isComplete :: bool

record SyncStatus =
  latestIndexedBlockHash :: string
  latestIndexedBlockNumber :: int
  latestCanonicalBlockHash :: string
  latestCanonicalBlockNumber :: int
  latestChainHeadBlockHash :: string
  latestChainHeadBlockNumber :: int

text \<open>
  An \<^verbatim>\<open>IPLDBlock\<close> row. The entity keeps the encoded bytes and every reader decodes them
  (\<^verbatim>\<open>codec.decode(Buffer.from(ipldBlock.data))\<close>); the model keeps the payload itself,
  the value the decoder gives back. The only writer, \<^verbatim>\<open>prepareIPLDBlock\<close>, reads
  \<^verbatim>\<open>data.meta.kind\<close> before it returns a row, so the payload of a row is an object; the
  kind of the row is whatever it read there.
\<close>

record IPLDBlock =
  block :: BlockProgress
  contractAddress :: string
  cid :: string
  kind :: StateKind
  data :: jobject

text \<open>The database: the block table, the single sync status row, and the state block
  table in creation order (a new row goes last, an updated row keeps its place).\<close>

record store =
  blocks :: "BlockProgress list"
  syncStatus :: "SyncStatus option"
  ipldBlocks :: "IPLDBlock list"

text \<open>Modelled from the spec: the block lookup \<^verbatim>\<open>byHash(hash)\<close> of section 6 behind
  \<^verbatim>\<open>getBlockProgress\<close>, whose database code is not part of the sources.\<close>

definition getBlockProgress :: "store \<Rightarrow> string \<Rightarrow> BlockProgress option" where
  "getBlockProgress s h = find (\<lambda>b. blockHash b = h) (blocks s)"

text \<open>Modelled from the spec: \<^verbatim>\<open>ChainPosition.get()\<close> of section 6 behind
  \<^verbatim>\<open>getSyncStatus\<close>.\<close>

definition getSyncStatus :: "store \<Rightarrow> SyncStatus option" where
  "getSyncStatus s = syncStatus s"

text \<open>Modelled from the spec: \<^verbatim>\<open>get(filter)\<close> of section 4.2 behind \<^verbatim>\<open>_db.getIPLDBlocks\<close>,
  the rows matching every field the filter gives (block, contract address, kind,
  identifier), in creation order; an empty list when there is none.\<close>

definition getIPLDBlocks ::
  "store \<Rightarrow> string option \<Rightarrow> string option \<Rightarrow> StateKind option \<Rightarrow> string option \<Rightarrow> IPLDBlock list" where
  "getIPLDBlocks s bh ca k ident =
     filter (\<lambda>r. (case bh of None \<Rightarrow> True | Some h \<Rightarrow> blockHash (block r) = h) \<and>
                 (case ca of None \<Rightarrow> True | Some c \<Rightarrow> contractAddress r = c) \<and>
                 (case k of None \<Rightarrow> True | Some kd \<Rightarrow> kind r = kd) \<and>
                 (case ident of None \<Rightarrow> True | Some i \<Rightarrow> cid r = i))
       (ipldBlocks s)"

text \<open>The first row of a list in the order "block number descending, then creation
  order": the highest block number, and among rows of that number the one created last.\<close>

fun latestOf :: "IPLDBlock list \<Rightarrow> IPLDBlock option" where
  "latestOf [] = None"
| "latestOf (r # rs) =
     (case latestOf rs of
        None \<Rightarrow> Some r
      | Some b \<Rightarrow> if blockNumber (block r) \<le> blockNumber (block b) then Some b else Some r)"

text \<open>Modelled from the spec: \<^verbatim>\<open>latest(contractAddress, kind|null, maxBlockNumber?)\<close> of
  section 4.2 behind \<^verbatim>\<open>_db.getLatestIPLDBlock\<close>: the most recent state block of the
  contract, of the given kind or of any kind, bounded above by the block number when
  one is given ("at or below", section 4.4 step 4).\<close>

definition getLatestIPLDBlock ::
  "store \<Rightarrow> string \<Rightarrow> StateKind option \<Rightarrow> int option \<Rightarrow> IPLDBlock option" where
  "getLatestIPLDBlock s ca k maxBlockNumber =
     latestOf (filter (\<lambda>r. contractAddress r = ca \<and>
                          (case k of None \<Rightarrow> True | Some kd \<Rightarrow> kind r = kd) \<and>
                          (case maxBlockNumber of None \<Rightarrow> True | Some n \<Rightarrow> blockNumber (block r) \<le> n))
                 (ipldBlocks s))"

text \<open>Modelled from the spec: section 4.4 step 7 behind
  \<^verbatim>\<open>_db.getDiffIPLDBlocksByCheckpoint\<close>: every \<^verbatim>\<open>diff\<close> state block of the contract with a
  block number strictly greater than the checkpoint's, in ascending block number order.\<close>

definition getDiffIPLDBlocksByCheckpoint :: "store \<Rightarrow> string \<Rightarrow> int \<Rightarrow> IPLDBlock list" where
  "getDiffIPLDBlocksByCheckpoint s ca checkpointBlockNumber =
     sort_key (\<lambda>r. blockNumber (block r))
       (filter (\<lambda>r. contractAddress r = ca \<and> kind r = Diff \<and>
                    checkpointBlockNumber < blockNumber (block r))
          (ipldBlocks s))"

definition sameKey :: "IPLDBlock \<Rightarrow> IPLDBlock \<Rightarrow> bool" where
  "sameKey r x \<longleftrightarrow>
     blockHash (block x) = blockHash (block r) \<and> contractAddress x = contractAddress r \<and>
     kind x = kind r"

fun upsert :: "IPLDBlock \<Rightarrow> IPLDBlock list \<Rightarrow> IPLDBlock list" where
  "upsert r [] = [r]"
| "upsert r (x # xs) =
     (if sameKey r x then x\<lparr>cid := cid r, data := data r\<rparr> # xs else x # upsert r xs)"

text \<open>Modelled from the spec: \<^verbatim>\<open>saveOrUpdate(block)\<close> of section 4.2 behind
  \<^verbatim>\<open>_db.saveOrUpdateIPLDBlock\<close>: an upsert keyed by (blockHash, contractAddress, kind)
  that overwrites the data and the identifier of the row it finds.\<close>

definition saveOrUpdateIPLDBlock :: "store \<Rightarrow> IPLDBlock \<Rightarrow> store" where
  "saveOrUpdateIPLDBlock s r = s\<lparr>ipldBlocks := upsert r (ipldBlocks s)\<rparr>"

text \<open>\<^verbatim>\<open>removeStagedIPLDBlocks\<close>: the rows with
  \<^verbatim>\<open>{ block: { blockNumber }, kind: 'diff_staged' }\<close> are removed (\<^verbatim>\<open>removeStaged\<close> of
  section 4.2). The transaction around it only matters when the database fails.\<close>

definition removeStagedIPLDBlocks :: "store \<Rightarrow> int \<Rightarrow> store" where
  "removeStagedIPLDBlocks s n =
     s\<lparr>ipldBlocks := filter (\<lambda>r. \<not> (blockNumber (block r) = n \<and> kind r = DiffStaged)) (ipldBlocks s)\<rparr>"

section \<open>The indexer\<close>

text \<open>
  What an operation can throw: a failed \<^verbatim>\<open>assert\<close> with its message, a \<^verbatim>\<open>TypeError\<close> (a
  property of null or undefined, a property set on a primitive), the encoder's refusal,
  an error raised by a hook.
  \<open>Unmodelled\<close> is not an error of the program: it marks a merge whose result the payload
  type cannot hold (\<open>None\<close> of \<open>lodash_merge\<close>).
  An operation returns its outcome together with the store it leaves behind, which an
  error does not roll back.
\<close>

datatype error =
    AssertionError string
  | TypeError
  | EncodeError
  | HookError string
  | Unmodelled

type_synonym 'a outcome = "(error + 'a) \<times> store"

text \<open>The collaborators the indexer imports and the sources do not contain: the digest
  function and the hooks of \<^verbatim>\<open>./hooks\<close>, which receive the indexer (here, the store).\<close>

record env =
  sha256 :: "byte list \<Rightarrow> byte list"
  createStateCheckpoint :: "store \<Rightarrow> string \<Rightarrow> string \<Rightarrow> bool outcome"
  createStateDiff :: "store \<Rightarrow> string \<Rightarrow> unit outcome"

definition newMeta :: "BlockProgress \<Rightarrow> string \<Rightarrow> StateKind \<Rightarrow> IPLDBlock option \<Rightarrow> jvalue" where
  "newMeta blk ca k parentIPLDBlock =
     JObj [(''id'', JStr ca),
           (''kind'', k),
           (''parent'', JObj [(''/'', (case parentIPLDBlock of Some p \<Rightarrow> JStr (cid p) | None \<Rightarrow> JNull))]),
           (''ethBlock'', JObj [(''cid'', JObj [(''/'', JStr (blockCid blk))]),
                                (''num'', JInt (blockNumber blk))])]"

text \<open>\<^verbatim>\<open>data.meta.kind\<close> (line 466): a \<^verbatim>\<open>TypeError\<close> when \<^verbatim>\<open>data.meta\<close> is undefined or null,
  and otherwise the value found there, whatever it is.\<close>

definition metaKind :: "jobject \<Rightarrow> error + StateKind" where
  "metaKind d =
     (case readKey d ''meta'' of
        JUndefined \<Rightarrow> Inl TypeError
      | JNull \<Rightarrow> Inl TypeError
      | m \<Rightarrow> Inr (getProp m ''kind''))"

text \<open>The first half of \<^verbatim>\<open>prepareIPLDBlock\<close> (lines 416 to 450): the payload to store.
  With a row for (block, contract, kind) the new data is merged into the row's; without
  one, \<^verbatim>\<open>data.meta\<close> is set, with the latest row of the contract up to the block's number
  as the parent. The assignment is made on the caller's object, which afterwards is the
  payload returned here; a primitive in its place makes the assignment throw, and an
  array would carry \<^verbatim>\<open>meta\<close> as a named property.\<close>

definition preparedData ::
  "store \<Rightarrow> BlockProgress \<Rightarrow> string \<Rightarrow> jvalue \<Rightarrow> StateKind \<Rightarrow> error + jobject" where
  "preparedData s blk ca d k =
     (let currentIPLDBlocks = getIPLDBlocks s (Some (blockHash blk)) (Some ca) (Some k) None in
      if \<not> length currentIPLDBlocks \<le> 1 then Inl (AssertionError [])
      else (case currentIPLDBlocks of
              currentIPLDBlock # _ \<Rightarrow>
                (case lodash_merge (JObj (data currentIPLDBlock)) d of
                   Some (JObj merged) \<Rightarrow> Inr merged
                 | _ \<Rightarrow> Inl Unmodelled)
            | [] \<Rightarrow>
                (let parentIPLDBlock = getLatestIPLDBlock s ca None (Some (blockNumber blk)) in
                 case d of
                   JObj kvs \<Rightarrow> Inr (AList.update ''meta'' (newMeta blk ca k parentIPLDBlock) kvs)
                 | JArr xs \<Rightarrow> Inl Unmodelled
                 | _ \<Rightarrow> Inl TypeError)))"

text \<open>\<^verbatim>\<open>prepareIPLDBlock\<close>: the assertion on the kind asked for (line 413), the payload,
  its identifier, and the row, whose kind is \<^verbatim>\<open>data.meta.kind\<close> of the payload and not
  the kind asked for.\<close>

definition prepareIPLDBlock ::
  "env \<Rightarrow> store \<Rightarrow> BlockProgress \<Rightarrow> string \<Rightarrow> jvalue \<Rightarrow> StateKind \<Rightarrow> error + IPLDBlock" where
  "prepareIPLDBlock e s blk ca d k =
     (if k \<notin> set [Diff, Checkpoint, DiffStaged] then Inl (AssertionError [])
      else
     (case preparedData s blk ca d k of
        Inl err \<Rightarrow> Inl err
      | Inr d' \<Rightarrow>
          (case computeCid (sha256 e) (JObj d') of
             None \<Rightarrow> Inl EncodeError
           | Some c \<Rightarrow>
               (case metaKind d' of
                  Inl err \<Rightarrow> Inl err
                | Inr k' \<Rightarrow>
                    Inr \<lparr>block = blk, contractAddress = ca, cid = CID_toString c, kind = k', data = d'\<rparr>))))"

definition createDiffStaged :: "env \<Rightarrow> store \<Rightarrow> string \<Rightarrow> string \<Rightarrow> jvalue \<Rightarrow> unit outcome" where
  "createDiffStaged e s ca bh d =
     (case getBlockProgress s bh of
        None \<Rightarrow> (Inl (AssertionError []), s)
      | Some blk \<Rightarrow>
          (case prepareIPLDBlock e s blk ca d DiffStaged of
             Inl err \<Rightarrow> (Inl err, s)
           | Inr ipldBlock \<Rightarrow> (Inr (), saveOrUpdateIPLDBlock s ipldBlock)))"

definition createDiff :: "env \<Rightarrow> store \<Rightarrow> string \<Rightarrow> string \<Rightarrow> jvalue \<Rightarrow> unit outcome" where
  "createDiff e s ca bh d =
     (case getBlockProgress s bh of
        None \<Rightarrow> (Inl (AssertionError []), s)
      | Some blk \<Rightarrow>
          (case getLatestIPLDBlock s ca (Some Checkpoint) None of
             None \<Rightarrow> (Inl (AssertionError ''Initial checkpoint doesn't exist''), s)
           | Some checkpoint \<Rightarrow>
               if \<not> blockHash (block checkpoint) \<noteq> blockHash blk
               then (Inl (AssertionError ''Checkpoint already created for the block hash.''), s)
               else (case prepareIPLDBlock e s blk ca d Diff of
                       Inl err \<Rightarrow> (Inl err, s)
                     | Inr ipldBlock \<Rightarrow> (Inr (), saveOrUpdateIPLDBlock s ipldBlock))))"

text \<open>The loop of \<^verbatim>\<open>finalizeDiffStaged\<close> over the staged rows it fetched.\<close>

fun createDiffs :: "env \<Rightarrow> store \<Rightarrow> IPLDBlock list \<Rightarrow> unit outcome" where
  "createDiffs e s [] = (Inr (), s)"
| "createDiffs e s (stagedBlock # rest) =
     (case createDiff e s (contractAddress stagedBlock) (blockHash (block stagedBlock))
             (JObj (data stagedBlock)) of
        (Inl err, s') \<Rightarrow> (Inl err, s')
      | (Inr u, s') \<Rightarrow> createDiffs e s' rest)"

definition finalizeDiffStaged :: "env \<Rightarrow> store \<Rightarrow> string \<Rightarrow> unit outcome" where
  "finalizeDiffStaged e s bh =
     (case getBlockProgress s bh of
        None \<Rightarrow> (Inl (AssertionError []), s)
      | Some blk \<Rightarrow>
          (case createDiffs e s (getIPLDBlocks s (Some (blockHash blk)) None (Some DiffStaged) None) of
             (Inl err, s') \<Rightarrow> (Inl err, s')
           | (Inr u, s') \<Rightarrow> (Inr (), removeStagedIPLDBlocks s' (blockNumber blk))))"

definition processCanonicalBlock :: "env \<Rightarrow> store \<Rightarrow> string \<Rightarrow> unit outcome" where
  "processCanonicalBlock e s bh =
     (case finalizeDiffStaged e s bh of
        (Inl err, s') \<Rightarrow> (Inl err, s')
      | (Inr u, s') \<Rightarrow> createStateDiff e s' bh)"

text \<open>The loop of \<^verbatim>\<open>createCheckpoint\<close> (lines 357 to 360):
  \<^verbatim>\<open>data.state = _.merge(data.state, diff.state)\<close> for each diff block in turn.\<close>

fun mergeDiffStates :: "jvalue \<Rightarrow> IPLDBlock list \<Rightarrow> jvalue option" where
  "mergeDiffStates st [] = Some st"
| "mergeDiffStates st (diffBlock # rest) =
     (case lodash_merge st (readKey (data diffBlock) ''state'') of
        None \<Rightarrow> None
      | Some st' \<Rightarrow> mergeDiffStates st' rest)"

text \<open>The block a checkpoint is made at: the one of the given hash, or without a hash
  (\<^verbatim>\<open>if (blockHash)\<close> is false for the empty string too) the latest canonical block.\<close>

definition resolveCurrentBlock :: "store \<Rightarrow> SyncStatus \<Rightarrow> string option \<Rightarrow> BlockProgress option" where
  "resolveCurrentBlock s status bh =
     (if bh \<noteq> None \<and> bh \<noteq> Some [] then getBlockProgress s (the bh)
      else getBlockProgress s (latestCanonicalBlockHash status))"

definition createCheckpoint ::
  "env \<Rightarrow> store \<Rightarrow> string \<Rightarrow> string option \<Rightarrow> jvalue \<Rightarrow> int option \<Rightarrow> string option outcome" where
  "createCheckpoint e s ca bh d checkpointInterval =
     (case getSyncStatus s of
        None \<Rightarrow> (Inl (AssertionError []), s)
      | Some status \<Rightarrow>
     (case resolveCurrentBlock s status bh of
        None \<Rightarrow> (Inl (AssertionError []), s)
      | Some currentBlock \<Rightarrow>
     if truthy d then
       (case prepareIPLDBlock e s currentBlock ca d Checkpoint of
          Inl err \<Rightarrow> (Inl err, s)
        | Inr ipldBlock \<Rightarrow> (Inr None, saveOrUpdateIPLDBlock s ipldBlock))
     else if \<not> isComplete currentBlock
       then (Inl (AssertionError ''Block for a checkpoint should be marked as complete''), s)
     else if \<not> blockNumber currentBlock \<le> latestCanonicalBlockNumber status
       then (Inl (AssertionError ''Block for a checkpoint should be in the pruned region''), s)
     else
     (case getLatestIPLDBlock s ca (Some Checkpoint) (Some (blockNumber currentBlock)) of
        None \<Rightarrow> (Inl (AssertionError []), s)
      | Some checkpointBlock \<Rightarrow>
     if checkpointInterval \<noteq> None \<and> checkpointInterval \<noteq> Some 0 \<and>
        blockNumber (block checkpointBlock) > blockNumber currentBlock - the checkpointInterval
     then (Inr None, s)
     else
     (case createStateCheckpoint e s ca (blockHash currentBlock) of
        (Inl err, s1) \<Rightarrow> (Inl err, s1)
      | (Inr disableDefaultCheckpoint, s1) \<Rightarrow>
     if disableDefaultCheckpoint then (Inr (Some (blockHash currentBlock)), s1)
     else
     (let diffBlocks = getDiffIPLDBlocksByCheckpoint s1 ca (blockNumber (block checkpointBlock)) in
      case mergeDiffStates (readKey (data checkpointBlock) ''state'') diffBlocks of
        None \<Rightarrow> (Inl Unmodelled, s1)
      | Some st \<Rightarrow>
          (case prepareIPLDBlock e s1 currentBlock ca (JObj [(''state'', st)]) Checkpoint of
             Inl err \<Rightarrow> (Inl err, s1)
           | Inr ipldBlock \<Rightarrow>
               (Inr (Some (blockHash currentBlock)), saveOrUpdateIPLDBlock s1 ipldBlock)))))))"

section \<open>Notions the properties are stated with\<close>

text \<open>The left fold \<open>merge(merge(...merge(S0, D1)...), Dk)\<close> of section 8, with the merge
  of the indexer; \<open>None\<close> when one of the merges is outside the model.\<close>

definition foldMerge :: "jvalue \<Rightarrow> jvalue list \<Rightarrow> jvalue option" where
  "foldMerge S0 Ds = foldl (\<lambda>acc D. case acc of None \<Rightarrow> None | Some a \<Rightarrow> lodash_merge a D) (Some S0) Ds"

text \<open>The \<^verbatim>\<open>state\<close> of a state block.\<close>

definition stateOf :: "IPLDBlock \<Rightarrow> jvalue" where
  "stateOf r = readKey (data r) ''state''"

text \<open>The parent link \<^verbatim>\<open>data.meta.parent['/']\<close> of a state block.\<close>

definition parentOf :: "IPLDBlock \<Rightarrow> jvalue" where
  "parentOf r = getProp (getProp (readKey (data r) ''meta'') ''parent'') ''/''"

text \<open>Invariant I1: no two rows share (blockHash, contractAddress, kind).\<close>

definition rowKey :: "IPLDBlock \<Rightarrow> string \<times> string \<times> StateKind" where
  "rowKey r = (blockHash (block r), contractAddress r, kind r)"

definition uniqueRows :: "store \<Rightarrow> bool" where
  "uniqueRows s \<longleftrightarrow> distinct (map rowKey (ipldBlocks s))"

text \<open>The state blocks of one contract, and the ones of a (block, contract, kind).\<close>

definition contractRows :: "store \<Rightarrow> string \<Rightarrow> IPLDBlock list" where
  "contractRows s ca = filter (\<lambda>r. contractAddress r = ca) (ipldBlocks s)"

definition rowsAt :: "store \<Rightarrow> string \<Rightarrow> string \<Rightarrow> StateKind \<Rightarrow> IPLDBlock list" where
  "rowsAt s bh ca k = getIPLDBlocks s (Some bh) (Some ca) (Some k) None"

text \<open>A value the encoder accepts.\<close>

definition encodable :: "jvalue \<Rightarrow> bool" where
  "encodable v \<longleftrightarrow> dag_cbor_encode v \<noteq> None"

text \<open>Structural equality of payloads: the same scalar, arrays of the same length with
  structurally equal elements, objects with the same keys and structurally equal values
  under each key. The order in which an object lists its keys does not matter.\<close>

fun structEq :: "jvalue \<Rightarrow> jvalue \<Rightarrow> bool" where
  "structEq (JArr xs) (JArr ys) = list_all2 structEq xs ys"
| "structEq (JObj kvs) (JObj kvs') =
     (set (map fst kvs) = set (map fst kvs') \<and>
      list_all (\<lambda>kv. case map_of kvs' (fst kv) of None \<Rightarrow> False | Some v' \<Rightarrow> structEq (snd kv) v') kvs)"
| "structEq a b = (a = b)"

text \<open>Sequences of staging operations.\<close>

datatype staging_op =
    CreateDiffStaged string string jvalue
  | CreateDiff string string jvalue
  | CreateCheckpoint string "string option" jvalue "int option"

fun applyOp :: "env \<Rightarrow> store \<Rightarrow> staging_op \<Rightarrow> store" where
  "applyOp e s (CreateDiffStaged ca bh d) = snd (createDiffStaged e s ca bh d)"
| "applyOp e s (CreateDiff ca bh d) = snd (createDiff e s ca bh d)"
| "applyOp e s (CreateCheckpoint ca bh d i) = snd (createCheckpoint e s ca bh d i)"

definition runOps :: "env \<Rightarrow> store \<Rightarrow> staging_op list \<Rightarrow> store" where
  "runOps e s ops = foldl (applyOp e) s ops"

text \<open>What "key by key" and "index by index" mean for a merge of \<open>b\<close> into \<open>a\<close> with
  result \<open>r\<close>: a key of \<open>a\<close> or \<open>r\<close> that \<open>b\<close> does not have keeps its entry, and under
  every key of \<open>b\<close> stands the merge of the two values; an array result is as long as
  the longer array, holds at every index of the source the merge of the two elements
  (of \<^verbatim>\<open>undefined\<close> and the source's element beyond the destination's end), and the
  destination's elements after that.\<close>

definition mergedKeyByKey :: "jobject \<Rightarrow> jobject \<Rightarrow> jobject \<Rightarrow> bool" where
  "mergedKeyByKey a b r \<longleftrightarrow>
     list_all (\<lambda>k. k \<in> fst ` set b \<or> map_of r k = map_of a k) (map fst a @ map fst r) \<and>
     list_all (\<lambda>kv. mergeValue (readKey a (fst kv)) (snd kv) = Some (readKey r (fst kv))) b"

definition mergedIndexByIndex :: "jvalue list \<Rightarrow> jvalue list \<Rightarrow> jvalue list \<Rightarrow> bool" where
  "mergedIndexByIndex os ss rs \<longleftrightarrow>
     length rs = max (length os) (length ss) \<and>
     list_all (\<lambda>i. mergeValue (if i < length os then os ! i else JUndefined) (ss ! i) = Some (rs ! i))
       [0..<length ss] \<and>
     list_all (\<lambda>i. rs ! i = os ! i) [length ss..<length os]"

section \<open>A small chain\<close>

text \<open>The scenario of section 8: contract \<open>C\<close>, blocks 100, 105, 108 and 110, hooks that
  do nothing (the generated defaults), and a stand-in for the digest.\<close>

definition env0 :: env where
  "env0 = \<lparr>sha256 = (\<lambda>bs. replicate 32 (of_nat (length bs))),
           createStateCheckpoint = (\<lambda>s ca bh. (Inr False, s)),
           createStateDiff = (\<lambda>s bh. (Inr (), s))\<rparr>"

definition mkBlock :: "string \<Rightarrow> int \<Rightarrow> BlockProgress" where
  "mkBlock h n = \<lparr>blockCid = ''cid-'' @ h, blockHash = h, blockNumber = n, isComplete = True\<rparr>"

definition status0 :: "int \<Rightarrow> SyncStatus" where
  "status0 canonical =
     \<lparr>latestIndexedBlockHash = ''0x6e'', latestIndexedBlockNumber = 110,
      latestCanonicalBlockHash = (if canonical = 105 then ''0x69'' else ''0x6e''),
      latestCanonicalBlockNumber = canonical,
      latestChainHeadBlockHash = ''0x6e'', latestChainHeadBlockNumber = 110\<rparr>"

definition chainStore :: "int \<Rightarrow> IPLDBlock list \<Rightarrow> store" where
  "chainStore canonical rows =
     \<lparr>blocks = [mkBlock ''0x64'' 100, mkBlock ''0x69'' 105, mkBlock ''0x6c'' 108, mkBlock ''0x6e'' 110],
      syncStatus = Some (status0 canonical),
      ipldBlocks = rows\<rparr>"

definition balance :: "int \<Rightarrow> jvalue" where
  "balance n = JObj [(''balance'', JInt n)]"

text \<open>A state block of contract \<open>C\<close> with the given state, as \<^verbatim>\<open>prepareIPLDBlock\<close> lays
  its payload out.\<close>

definition stateRow :: "BlockProgress \<Rightarrow> StateKind \<Rightarrow> string \<Rightarrow> jvalue \<Rightarrow> IPLDBlock" where
  "stateRow blk k c st =
     \<lparr>block = blk, contractAddress = ''C'', cid = c, kind = k,
      data = [(''state'', st), (''meta'', newMeta blk ''C'' k None)]\<rparr>"

definition checkpoint100 :: IPLDBlock where
  "checkpoint100 = stateRow (mkBlock ''0x64'' 100) Checkpoint ''bafy-checkpoint-100'' (balance 0)"

definition staged105 :: IPLDBlock where
  "staged105 = stateRow (mkBlock ''0x69'' 105) DiffStaged ''bafy-staged-105'' (balance 50)"

definition checkpoint105 :: IPLDBlock where
  "checkpoint105 = stateRow (mkBlock ''0x69'' 105) Checkpoint ''bafy-checkpoint-105'' (balance 50)"

definition diffOwner105 :: IPLDBlock where
  "diffOwner105 =
     stateRow (mkBlock ''0x69'' 105) Diff ''bafy-diff-105''
       (JObj [(''balance'', JInt 7), (''owner'', JStr ''o'')])"

definition diff105 :: "int \<Rightarrow> IPLDBlock" where
  "diff105 n = stateRow (mkBlock ''0x69'' 105) Diff ''bafy-diff-105'' (balance n)"

definition diff108 :: "int \<Rightarrow> IPLDBlock" where
  "diff108 n = stateRow (mkBlock ''0x6c'' 108) Diff ''bafy-diff-108'' (balance n)"

definition diff110 :: "int \<Rightarrow> IPLDBlock" where
  "diff110 n = stateRow (mkBlock ''0x6e'' 110) Diff ''bafy-diff-110'' (balance n)"

definition checkpointOwner100 :: IPLDBlock where
  "checkpointOwner100 =
     stateRow (mkBlock ''0x64'' 100) Checkpoint ''bafy-checkpoint-100''
       (JObj [(''balance'', JInt 0), (''owner'', JStr ''o'')])"

definition diffNonce105 :: IPLDBlock where
  "diffNonce105 =
     stateRow (mkBlock ''0x69'' 105) Diff ''bafy-diff-105''
       (JObj [(''balance'', JInt 50), (''nonce'', JInt 1)])"

section \<open>Properties\<close>

subsection \<open>Lookups\<close>

lemma latestOf_mem: "latestOf xs = Some r \<Longrightarrow> r \<in> set xs"
  by (induction xs arbitrary: r) (auto split: option.splits if_splits)

lemma getLatestIPLDBlock_bound:
  "getLatestIPLDBlock s ca k (Some n) = Some r \<Longrightarrow> blockNumber (block r) \<le> n"
  by (auto simp: getLatestIPLDBlock_def dest!: latestOf_mem)

lemma getBlockProgress_hash: "getBlockProgress s h = Some b \<Longrightarrow> blockHash b = h"
  by (auto simp: getBlockProgress_def find_Some_iff)

subsection \<open>The gates of \<^verbatim>\<open>createCheckpoint\<close>\<close>

text \<open>
  Claim C6. A call of \<^verbatim>\<open>createCheckpoint\<close> without data (\<^verbatim>\<open>undefined\<close>, \<^verbatim>\<open>null\<close> or any
  other falsy value) whose target block is above the latest canonical block number, or
  is not marked complete, throws an assertion error and leaves the store as it was; the
  result does not depend on the hooks, and nothing is tried a second time.
\<close>

theorem createCheckpoint_pruning_gate:
  assumes "getSyncStatus s = Some status"
    and "resolveCurrentBlock s status bh = Some currentBlock"
    and "\<not> truthy d"
    and "latestCanonicalBlockNumber status < blockNumber currentBlock \<or> \<not> isComplete currentBlock"
  shows "\<exists>msg. createCheckpoint e s ca bh d checkpointInterval = (Inl (AssertionError msg), s)"
  using assms by (auto simp: createCheckpoint_def)

theorem createCheckpoint_pruning_gate_witness:
  "getSyncStatus (chainStore 105 [checkpoint100]) = Some (status0 105) \<and>
   resolveCurrentBlock (chainStore 105 [checkpoint100]) (status0 105) (Some ''0x6c'') = Some (mkBlock ''0x6c'' 108) \<and>
   \<not> truthy JUndefined \<and>
   latestCanonicalBlockNumber (status0 105) < blockNumber (mkBlock ''0x6c'' 108) \<and>
   (\<exists>msg. createCheckpoint env0 (chainStore 105 [checkpoint100]) ''C'' (Some ''0x6c'') JUndefined (Some 5)
            = (Inl (AssertionError msg), chainStore 105 [checkpoint100]))"
proof -
  have a: "getSyncStatus (chainStore 105 [checkpoint100]) = Some (status0 105)"
    by (simp add: getSyncStatus_def chainStore_def)
  have b: "resolveCurrentBlock (chainStore 105 [checkpoint100]) (status0 105) (Some ''0x6c'') = Some (mkBlock ''0x6c'' 108)"
    by (simp add: resolveCurrentBlock_def getBlockProgress_def chainStore_def mkBlock_def)
  have c: "\<not> truthy JUndefined"
    by simp
  have d: "latestCanonicalBlockNumber (status0 105) < blockNumber (mkBlock ''0x6c'' 108)"
    by (simp add: status0_def mkBlock_def)
  from createCheckpoint_pruning_gate [OF a b c disjI1 [OF d]] a b c d show ?thesis
    by simp
qed

text \<open>
  Claim C7, as the code has it. The interval test comes after the branch for explicit
  data and after the two assertions. A call of \<^verbatim>\<open>createCheckpoint\<close> without data, on a
  target block that is marked complete and is at or below the latest canonical block
  number, with a checkpoint interval \<open>i\<close> and the contract's latest checkpoint up to the
  target block at block \<open>Nc\<close> with \<open>Nt - Nc < i\<close>, returns \<^verbatim>\<open>undefined\<close> and leaves the store
  unchanged; the result is the same for every hook, so the checkpoint hook is not called.
\<close>

theorem createCheckpoint_interval_gate:
  assumes "getSyncStatus s = Some status"
    and "resolveCurrentBlock s status bh = Some currentBlock"
    and "\<not> truthy d"
    and "isComplete currentBlock"
    and "blockNumber currentBlock \<le> latestCanonicalBlockNumber status"
    and "getLatestIPLDBlock s ca (Some Checkpoint) (Some (blockNumber currentBlock)) = Some checkpointBlock"
    and "blockNumber currentBlock - blockNumber (block checkpointBlock) < i"
  shows "createCheckpoint e s ca bh d (Some i) = (Inr None, s)"
proof -
  have "blockNumber (block checkpointBlock) \<le> blockNumber currentBlock"
    using assms(6) by (rule getLatestIPLDBlock_bound)
  with assms(7) have "i \<noteq> 0" "blockNumber currentBlock - i < blockNumber (block checkpointBlock)"
    by auto
  with assms(1-6) show ?thesis
    by (simp add: createCheckpoint_def)
qed

text \<open>The claim as stated, for every invocation with an interval, fails. With data the
  call never reaches the interval test (lines 314 to 319): at \<open>Nt - Nc = 8 < 10\<close> it
  writes a checkpoint at block 108. Without data, a target block above the latest
  canonical block number, or one not marked complete, makes the call throw.\<close>

theorem createCheckpoint_interval_gate_counterexample:
  "getLatestIPLDBlock (chainStore 110 [checkpoint100, diff105 50]) ''C'' (Some Checkpoint)
       (Some (blockNumber (mkBlock ''0x6c'' 108))) = Some checkpoint100 \<and>
   blockNumber (mkBlock ''0x6c'' 108) - blockNumber (block checkpoint100) < 10 \<and>
   rowsAt (chainStore 110 [checkpoint100, diff105 50]) ''0x6c'' ''C'' Checkpoint = [] \<and>
   fst (createCheckpoint env0 (chainStore 110 [checkpoint100, diff105 50]) ''C'' (Some ''0x6c'')
          (JObj [(''state'', balance 50)]) (Some 10)) = Inr None \<and>
   map stateOf (rowsAt (snd (createCheckpoint env0 (chainStore 110 [checkpoint100, diff105 50]) ''C''
                               (Some ''0x6c'') (JObj [(''state'', balance 50)]) (Some 10)))
                  ''0x6c'' ''C'' Checkpoint) = [balance 50] \<and>
   createCheckpoint env0 (chainStore 105 [checkpoint100, diff105 50]) ''C'' (Some ''0x6c'') JUndefined (Some 10)
     = (Inl (AssertionError ''Block for a checkpoint should be in the pruned region''),
        chainStore 105 [checkpoint100, diff105 50]) \<and>
   createCheckpoint env0
       ((chainStore 110 [checkpoint100, diff105 50])
          \<lparr>blocks := [(mkBlock ''0x6c'' 108)\<lparr>isComplete := False\<rparr>]\<rparr>)
       ''C'' (Some ''0x6c'') JUndefined (Some 10)
     = (Inl (AssertionError ''Block for a checkpoint should be marked as complete''),
        (chainStore 110 [checkpoint100, diff105 50])
          \<lparr>blocks := [(mkBlock ''0x6c'' 108)\<lparr>isComplete := False\<rparr>]\<rparr>)"
  by code_simp

theorem createCheckpoint_interval_gate_witness:
  "getSyncStatus (chainStore 110 [checkpoint100, diff105 50]) = Some (status0 110) \<and>
   resolveCurrentBlock (chainStore 110 [checkpoint100, diff105 50]) (status0 110) (Some ''0x6c'')
     = Some (mkBlock ''0x6c'' 108) \<and>
   \<not> truthy JNull \<and>
   isComplete (mkBlock ''0x6c'' 108) \<and>
   blockNumber (mkBlock ''0x6c'' 108) \<le> latestCanonicalBlockNumber (status0 110) \<and>
   getLatestIPLDBlock (chainStore 110 [checkpoint100, diff105 50]) ''C'' (Some Checkpoint)
       (Some (blockNumber (mkBlock ''0x6c'' 108)))
     = Some checkpoint100 \<and>
   blockNumber (mkBlock ''0x6c'' 108) - blockNumber (block checkpoint100) < 10 \<and>
   createCheckpoint env0 (chainStore 110 [checkpoint100, diff105 50]) ''C'' (Some ''0x6c'') JNull (Some 10)
     = (Inr None, chainStore 110 [checkpoint100, diff105 50])"
proof -
  have a: "getSyncStatus (chainStore 110 [checkpoint100, diff105 50]) = Some (status0 110)"
    by (simp add: getSyncStatus_def chainStore_def)
  have b: "resolveCurrentBlock (chainStore 110 [checkpoint100, diff105 50]) (status0 110) (Some ''0x6c'')
     = Some (mkBlock ''0x6c'' 108)"
    by (simp add: resolveCurrentBlock_def getBlockProgress_def chainStore_def mkBlock_def)
  have c: "\<not> truthy JNull"
    by simp
  have d: "isComplete (mkBlock ''0x6c'' 108)"
    by (simp add: mkBlock_def)
  have f: "blockNumber (mkBlock ''0x6c'' 108) \<le> latestCanonicalBlockNumber (status0 110)"
    by (simp add: status0_def mkBlock_def)
  have g: "getLatestIPLDBlock (chainStore 110 [checkpoint100, diff105 50]) ''C'' (Some Checkpoint)
       (Some (blockNumber (mkBlock ''0x6c'' 108)))
     = Some checkpoint100"
    by (simp add: getLatestIPLDBlock_def chainStore_def checkpoint100_def diff105_def stateRow_def mkBlock_def)
  have h: "blockNumber (mkBlock ''0x6c'' 108) - blockNumber (block checkpoint100) < 10"
    by (simp add: checkpoint100_def stateRow_def mkBlock_def)
  from createCheckpoint_interval_gate [OF a b c d f g h] a b c d f g h show ?thesis
    by simp
qed

subsection \<open>The deep merge\<close>

lemma readKey_update: "readKey (AList.update k v obj) k' = (if k' = k then v else readKey obj k')"
  by (simp add: readKey_def update_conv')

lemma baseMerge_obj_keys:
  "baseMerge_obj obj src = Some r \<Longrightarrow> distinct (map fst src) \<Longrightarrow>
     (\<forall>k. k \<notin> fst ` set src \<longrightarrow> map_of r k = map_of obj k) \<and>
     (\<forall>kv\<in>set src. map_of r (fst kv) \<noteq> None \<and>
          mergeValue (readKey obj (fst kv)) (snd kv) = Some (readKey r (fst kv)))"
proof (induction src arbitrary: obj)
  case Nil
  then show ?case by simp
next
  case (Cons kv src)
  from Cons.prems obtain nv where nv: "mergeValue (readKey obj (fst kv)) (snd kv) = Some nv"
    and rest: "baseMerge_obj (AList.update (fst kv) nv obj) src = Some r"
    by (auto split: option.splits)
  from Cons.prems have d: "distinct (map fst src)" and notin: "fst kv \<notin> fst ` set src"
    by auto
  note IH = Cons.IH [OF rest d]
  from IH notin have here: "map_of r (fst kv) = Some nv"
    by (simp add: update_conv')
  have others: "\<forall>kv'\<in>set src. readKey (AList.update (fst kv) nv obj) (fst kv') = readKey obj (fst kv')"
  proof
    fix kv' assume "kv' \<in> set src"
    then have "fst kv' \<in> fst ` set src"
      by (rule imageI)
    with notin have "fst kv' \<noteq> fst kv"
      by metis
    then show "readKey (AList.update (fst kv) nv obj) (fst kv') = readKey obj (fst kv')"
      by (simp add: readKey_update)
  qed
  show ?case
  proof (intro conjI allI impI ballI)
    fix k assume "k \<notin> fst ` set (kv # src)"
    then have "k \<noteq> fst kv" "k \<notin> fst ` set src"
      by auto
    with IH have "map_of r k = map_of (AList.update (fst kv) nv obj) k"
      by blast
    with \<open>k \<noteq> fst kv\<close> show "map_of r k = map_of obj k"
      by (simp add: update_conv')
  next
    fix kv' assume "kv' \<in> set (kv # src)"
    then show "map_of r (fst kv') \<noteq> None"
      using IH here by auto
  next
    fix kv' assume "kv' \<in> set (kv # src)"
    then show "mergeValue (readKey obj (fst kv')) (snd kv') = Some (readKey r (fst kv'))"
      using IH here nv others by (auto simp: readKey_def)
  qed
qed

lemma baseMerge_arr_index:
  "baseMerge_arr os ss = Some rs \<Longrightarrow>
     length rs = max (length os) (length ss) \<and>
     (\<forall>i<length ss. mergeValue (if i < length os then os ! i else JUndefined) (ss ! i) = Some (rs ! i)) \<and>
     (\<forall>i. length ss \<le> i \<and> i < length os \<longrightarrow> rs ! i = os ! i)"
proof (induction ss arbitrary: os rs)
  case Nil
  then show ?case by simp
next
  case (Cons sv ss)
  from Cons.prems obtain nv rs' where
    nv: "mergeValue (case os of [] \<Rightarrow> JUndefined | ov # x \<Rightarrow> ov) sv = Some nv"
    and rest: "baseMerge_arr (tl os) ss = Some rs'" and rs: "rs = nv # rs'"
    by (auto split: option.splits)
  note IH = Cons.IH [OF rest]
  show ?case
  proof (cases os)
    case Nil
    with IH nv rs show ?thesis
      by (auto simp: nth_Cons split: nat.splits)
  next
    case (Cons ov os')
    with IH nv rs show ?thesis
      by (auto simp: nth_Cons split: nat.splits)
  qed
qed

lemma merge_again:
  "wf_value sv \<Longrightarrow> mergeValue ov sv = Some r \<Longrightarrow> mergeValue r sv = Some r"
  "distinct (map fst src) \<Longrightarrow> list_all (\<lambda>kv. wf_value (snd kv)) src \<Longrightarrow>
     baseMerge_obj obj src = Some ro \<Longrightarrow> baseMerge_obj ro src = Some ro"
  "list_all wf_value ss \<Longrightarrow> baseMerge_arr os ss = Some rs \<Longrightarrow> baseMerge_arr rs ss = Some rs"
proof (induction ov sv and obj src and os ss arbitrary: r and ro and rs
    rule: mergeValue_baseMerge_obj_baseMerge_arr.induct)
  case (1 ov ss)
  then show ?case
    by (auto simp: arrayDest_def split: option.splits)
next
  case (2 ov skv)
  then show ?case
    by (auto simp: objectDest_def split: option.splits)
next
  case (9 obj kv src)
  from "9.prems" obtain nv where nv: "mergeValue (readKey obj (fst kv)) (snd kv) = Some nv"
    and rest: "baseMerge_obj (AList.update (fst kv) nv obj) src = Some ro"
    by (auto split: option.splits)
  from "9.prems" have d: "distinct (map fst src)" and notin: "fst kv \<notin> fst ` set src"
    and wfs: "list_all (\<lambda>kv. wf_value (snd kv)) src" and wf: "wf_value (snd kv)"
    by auto
  from baseMerge_obj_keys [OF rest d] notin have here: "map_of ro (fst kv) = Some nv"
    by (simp add: update_conv')
  then have rk: "readKey ro (fst kv) = nv"
    by (simp add: readKey_def)
  have again: "mergeValue nv (snd kv) = Some nv"
    using "9.IH"(1) [OF wf nv] .
  have "baseMerge_obj ro src = Some ro"
    using "9.IH"(2) [OF nv d wfs rest] .
  with rk again here show ?case
    by (simp add: update_triv)
next
  case (11 os sv ss)
  from "11.prems" obtain nv rs' where
    nv: "mergeValue (case os of [] \<Rightarrow> JUndefined | ov # x \<Rightarrow> ov) sv = Some nv"
    and rest: "baseMerge_arr (tl os) ss = Some rs'" and rs: "rs = nv # rs'"
    by (auto split: option.splits)
  from "11.prems" have wf: "wf_value sv" and wfs: "list_all wf_value ss"
    by auto
  from "11.IH"(1) [OF wf nv] "11.IH"(2) [OF nv wfs rest] rs show ?case
    by simp
qed simp_all

lemma merge_copy: "wf_value v \<Longrightarrow> mergeValue JUndefined v = Some v"
proof (induction v)
  case (JArr xs)
  then have "baseMerge_arr [] xs = Some xs"
    by (induction xs) (auto simp: list_all_iff)
  then show ?case
    by (simp add: arrayDest_def)
next
  case (JObj kvs)
  have copies: "\<forall>kv\<in>set kvs. wf_value (snd kv) \<longrightarrow> mergeValue JUndefined (snd kv) = Some (snd kv)"
  proof (intro ballI impI)
    fix kv assume kv: "kv \<in> set kvs" and wf: "wf_value (snd kv)"
    have "snd kv \<in> Basic_BNFs.snds kv"
      by (cases kv) simp
    with kv show "mergeValue JUndefined (snd kv) = Some (snd kv)"
      using wf by (rule JObj.IH)
  qed
  have "distinct (map fst (acc @ kvs)) \<Longrightarrow> list_all (\<lambda>kv. wf_value (snd kv)) kvs \<Longrightarrow>
         \<forall>kv\<in>set kvs. wf_value (snd kv) \<longrightarrow> mergeValue JUndefined (snd kv) = Some (snd kv) \<Longrightarrow>
         baseMerge_obj acc kvs = Some (acc @ kvs)" for acc
  proof (induction kvs arbitrary: acc)
    case Nil
    then show ?case by simp
  next
    case (Cons kv kvs)
    have none: "map_of acc (fst kv) = None"
      using Cons.prems(1) by (auto simp: map_of_eq_None_iff)
    have m: "mergeValue JUndefined (snd kv) = Some (snd kv)"
      using Cons.prems(2,3) by simp
    have upd: "AList.update (fst kv) (snd kv) acc = acc @ [kv]"
      using none by (induction acc) (auto split: if_splits)
    have "baseMerge_obj (acc @ [kv]) kvs = Some ((acc @ [kv]) @ kvs)"
      using Cons.prems by (intro Cons.IH) auto
    with none m upd show ?case
      by (simp add: readKey_def)
  qed
  from this [of "[]"] copies JObj.prems show ?case
    by (simp add: objectDest_def)
qed simp_all

lemma merge_idem: "wf_value v \<Longrightarrow> mergeValue v v = Some v"
  using merge_again(1) [OF _ merge_copy] by blast


lemma baseMerge_obj_keyByKey:
  assumes "baseMerge_obj a b = Some r" and "distinct (map fst b)"
  shows "mergedKeyByKey a b r"
  using baseMerge_obj_keys [OF assms]
  by (auto simp: mergedKeyByKey_def list_all_iff)

lemma baseMerge_arr_indexByIndex:
  assumes "baseMerge_arr os ss = Some rs"
  shows "mergedIndexByIndex os ss rs"
  using baseMerge_arr_index [OF assms]
  by (auto simp: mergedIndexByIndex_def list_all_iff)

lemma lodash_merge_objects:
  "lodash_merge (JObj a) (JObj b) = map_option JObj (baseMerge_obj a b)"
  by (simp add: lodash_merge_def)

text \<open>
  Claim C5, as the code has it. The deep merge of staging and compaction merges nested
  maps key by key and arrays index by index, both recursively, and overwrites scalar
  values: merging \<open>b\<close> into \<open>a\<close>, an array of \<open>b\<close> is merged into an array of \<open>a\<close> under the
  same key element by element, and the elements of \<open>a\<close>'s array beyond the length of
  \<open>b\<close>'s stay; a null, boolean, number or string of \<open>b\<close> replaces what \<open>a\<close> has.
\<close>

theorem merge_deep:
  "(lodash_merge (JObj a) (JObj b) = Some r \<and> distinct (map fst b) \<longrightarrow>
      (\<exists>rkv. r = JObj rkv \<and> mergedKeyByKey a b rkv)) \<and>
   (mergeValue (JObj okv) (JObj skv) = Some rv \<and> distinct (map fst skv) \<longrightarrow>
      (\<exists>rkv. rv = JObj rkv \<and> mergedKeyByKey okv skv rkv)) \<and>
   (mergeValue (JArr os) (JArr ss) = Some rv' \<longrightarrow>
      (\<exists>rs. rv' = JArr rs \<and> mergedIndexByIndex os ss rs)) \<and>
   (sv \<in> {JNull, JBool bv, JInt iv, JStr tv} \<longrightarrow> mergeValue ov sv = Some sv)"
  by (auto simp: lodash_merge_objects objectDest_def arrayDest_def
      intro: baseMerge_obj_keyByKey baseMerge_arr_indexByIndex)

text \<open>The claim as stated fails: \<^verbatim>\<open>_.merge({a: [1, 2, 3]}, {a: [9]})\<close> is
  \<^verbatim>\<open>{a: [9, 2, 3]}\<close>, not \<^verbatim>\<open>{a: [9]}\<close>.\<close>

theorem merge_arrays_counterexample:
  "lodash_merge (JObj [(''a'', JArr [JInt 1, JInt 2, JInt 3])]) (JObj [(''a'', JArr [JInt 9])])
     = Some (JObj [(''a'', JArr [JInt 9, JInt 2, JInt 3])]) \<and>
   lodash_merge (JObj [(''a'', JArr [JInt 1, JInt 2, JInt 3])]) (JObj [(''a'', JArr [JInt 9])])
     \<noteq> Some (JObj [(''a'', JArr [JInt 9])])"
  by (simp add: lodash_merge_def readKey_def arrayDest_def)

theorem merge_deep_witness:
  "lodash_merge (JObj [(''a'', JArr [JInt 1, JInt 2, JInt 3])]) (JObj [(''a'', JArr [JInt 9])])
     = Some (JObj [(''a'', JArr [JInt 9, JInt 2, JInt 3])]) \<and>
   distinct (map fst [(''a'', JArr [JInt 9])]) \<and>
   mergedKeyByKey [(''a'', JArr [JInt 1, JInt 2, JInt 3])] [(''a'', JArr [JInt 9])]
     [(''a'', JArr [JInt 9, JInt 2, JInt 3])] \<and>
   mergeValue (JArr [JInt 1, JInt 2, JInt 3]) (JArr [JInt 9]) = Some (JArr [JInt 9, JInt 2, JInt 3]) \<and>
   mergedIndexByIndex [JInt 1, JInt 2, JInt 3] [JInt 9] [JInt 9, JInt 2, JInt 3] \<and>
   JInt 9 \<in> {JNull, JBool True, JInt 9, JStr []} \<and>
   mergeValue (JInt 1) (JInt 9) = Some (JInt 9)"
proof -
  have m: "lodash_merge (JObj [(''a'', JArr [JInt 1, JInt 2, JInt 3])]) (JObj [(''a'', JArr [JInt 9])])
     = Some (JObj [(''a'', JArr [JInt 9, JInt 2, JInt 3])])"
    by (simp add: lodash_merge_def readKey_def arrayDest_def)
  have d: "distinct (map fst [(''a'', JArr [JInt 9])])"
    by simp
  have v: "mergeValue (JArr [JInt 1, JInt 2, JInt 3]) (JArr [JInt 9]) = Some (JArr [JInt 9, JInt 2, JInt 3])"
    by (simp add: arrayDest_def)
  have i: "JInt 9 \<in> {JNull, JBool True, JInt 9, JStr []}"
    by simp
  note t = merge_deep [of "[(''a'', JArr [JInt 1, JInt 2, JInt 3])]" "[(''a'', JArr [JInt 9])]"
      "JObj [(''a'', JArr [JInt 9, JInt 2, JInt 3])]" "[]" "[]" "JObj []"
      "[JInt 1, JInt 2, JInt 3]" "[JInt 9]" "JArr [JInt 9, JInt 2, JInt 3]"
      "JInt 9" True 9 "[]" "JInt 1"]
  from t m d v i show ?thesis
    by auto
qed

subsection \<open>Rows and keys\<close>

lemma sameKey_rowKey: "sameKey r x \<longleftrightarrow> rowKey x = rowKey r"
  by (auto simp: sameKey_def rowKey_def)

lemma rowKey_overwrite [simp]: "rowKey (x\<lparr>cid := c, data := d\<rparr>) = rowKey x"
  by (simp add: rowKey_def)

lemma rowsAt_filter: "rowsAt s bh ca k = filter (\<lambda>x. rowKey x = (bh, ca, k)) (ipldBlocks s)"
  by (auto simp: rowsAt_def getIPLDBlocks_def rowKey_def intro: filter_cong)

lemma upsert_append: "rowKey r \<notin> rowKey ` set xs \<Longrightarrow> upsert r xs = xs @ [r]"
  by (induction xs) (auto simp: sameKey_rowKey)

lemma map_rowKey_upsert:
  "map rowKey (upsert r xs) =
     (if rowKey r \<in> rowKey ` set xs then map rowKey xs else map rowKey xs @ [rowKey r])"
  by (induction xs) (auto simp: sameKey_rowKey)

lemma filter_key_upsert:
  "\<not> Q (rowKey r) \<Longrightarrow>
     filter (\<lambda>x. Q (rowKey x)) (upsert r xs) = filter (\<lambda>x. Q (rowKey x)) xs"
  by (induction xs) (auto simp: sameKey_rowKey)

lemma contractRows_save:
  "contractAddress r \<noteq> ca \<Longrightarrow> contractRows (saveOrUpdateIPLDBlock s r) ca = contractRows s ca"
  using filter_key_upsert [of "\<lambda>key. fst (snd key) = ca" r "ipldBlocks s"]
  by (simp add: contractRows_def saveOrUpdateIPLDBlock_def rowKey_def)

lemma getLatest_contractRows:
  "getLatestIPLDBlock s ca k m =
     latestOf (filter (\<lambda>r. (case k of None \<Rightarrow> True | Some kd \<Rightarrow> kind r = kd) \<and>
                          (case m of None \<Rightarrow> True | Some n \<Rightarrow> blockNumber (block r) \<le> n))
                 (contractRows s ca))"
  by (auto simp: getLatestIPLDBlock_def contractRows_def intro: arg_cong [where f = latestOf] filter_cong)

lemma prepareIPLDBlock_contract:
  "prepareIPLDBlock e s blk ca d k = Inr r \<Longrightarrow> contractAddress r = ca \<and> block r = blk"
  by (auto simp: prepareIPLDBlock_def split: sum.splits option.splits if_splits)

lemma save_frame [simp]:
  "blocks (saveOrUpdateIPLDBlock s r) = blocks s"
  "syncStatus (saveOrUpdateIPLDBlock s r) = syncStatus s"
  by (simp_all add: saveOrUpdateIPLDBlock_def)

subsection \<open>Permanent diffs need an earlier checkpoint\<close>

lemma createDiff_cases:
  assumes "createDiff e s ca bh d = (res, s')"
  shows "s' = s \<or> (\<exists>blk r. getBlockProgress s bh = Some blk \<and> prepareIPLDBlock e s blk ca d Diff = Inr r \<and>
            res = Inr () \<and> s' = saveOrUpdateIPLDBlock s r)"
  using assms by (auto simp: createDiff_def split: option.splits if_splits sum.splits)

lemma createDiff_other:
  assumes "createDiff e s c' bh d = (res, s')" and "c' \<noteq> ca"
  shows "contractRows s' ca = contractRows s ca"
  using createDiff_cases [OF assms(1)] assms(2)
  by (auto dest!: prepareIPLDBlock_contract simp: contractRows_save)

lemma createDiff_blocked:
  assumes "getLatestIPLDBlock s ca (Some Checkpoint) None = None \<or>
           (\<exists>cp. getLatestIPLDBlock s ca (Some Checkpoint) None = Some cp \<and> blockHash (block cp) = bh)"
  shows "\<exists>msg. createDiff e s ca bh d = (Inl (AssertionError msg), s)"
  using assms by (auto simp: createDiff_def dest: getBlockProgress_hash split: option.splits)

lemma createDiffs_blocked:
  assumes "\<exists>x\<in>set xs. contractAddress x = ca"
    and "\<forall>x\<in>set xs. blockHash (block x) = bh"
    and "getLatestIPLDBlock s ca (Some Checkpoint) None = Some cp"
    and "blockHash (block cp) = bh"
  shows "\<exists>err s'. createDiffs e s xs = (Inl err, s') \<and> contractRows s' ca = contractRows s ca"
  using assms
proof (induction xs arbitrary: s)
  case Nil
  then show ?case by simp
next
  case (Cons x xs)
  show ?case
  proof (cases "contractAddress x = ca")
    case True
    from Cons.prems(2) have "blockHash (block x) = bh"
      by simp
    with createDiff_blocked [of s ca bh e "JObj (data x)"] Cons.prems(3,4) True
    show ?thesis
      by auto
  next
    case False
    obtain res s1 where step: "createDiff e s (contractAddress x) (blockHash (block x)) (JObj (data x)) = (res, s1)"
      by (cases "createDiff e s (contractAddress x) (blockHash (block x)) (JObj (data x))") blast
    from createDiff_other [OF step False] have same: "contractRows s1 ca = contractRows s ca" .
    show ?thesis
    proof (cases res)
      case (Inl err)
      with step same show ?thesis
        by simp
    next
      case (Inr u)
      from same Cons.prems(3) have "getLatestIPLDBlock s1 ca (Some Checkpoint) None = Some cp"
        by (simp add: getLatest_contractRows)
      from Cons.IH [OF _ _ this Cons.prems(4)] Cons.prems(1,2) False
      obtain err s' where "createDiffs e s1 xs = (Inl err, s')" "contractRows s' ca = contractRows s1 ca"
        by auto
      with step Inr same show ?thesis
        by simp
    qed
  qed
qed

text \<open>
  Claim C10. \<^verbatim>\<open>createDiff\<close> throws an assertion error and leaves the store unchanged when the
  contract has no checkpoint, or when its latest checkpoint is at the block of the given
  hash. Consequently \<^verbatim>\<open>finalizeDiffStaged\<close> of a block fails when a contract staged at that
  block has its latest checkpoint there, and no state block of that contract is written
  or changed: its staged row stays, no diff appears. (The loop may stop earlier, at
  another contract's staged row; what it stops with is an error in every case.)
\<close>

theorem createDiff_needs_earlier_checkpoint:
  "(getLatestIPLDBlock s ca (Some Checkpoint) None = None \<or>
    (\<exists>cp. getLatestIPLDBlock s ca (Some Checkpoint) None = Some cp \<and> blockHash (block cp) = bh)
      \<longrightarrow> (\<exists>msg. createDiff e s ca bh d = (Inl (AssertionError msg), s))) \<and>
   (staged \<in> set (getIPLDBlocks s (Some bh) None (Some DiffStaged) None) \<and>
    getLatestIPLDBlock s (contractAddress staged) (Some Checkpoint) None = Some cp' \<and>
    blockHash (block cp') = bh
      \<longrightarrow> (\<exists>err s'. finalizeDiffStaged e s bh = (Inl err, s') \<and>
             contractRows s' (contractAddress staged) = contractRows s (contractAddress staged)))"
proof (intro conjI impI)
  assume "getLatestIPLDBlock s ca (Some Checkpoint) None = None \<or>
    (\<exists>cp. getLatestIPLDBlock s ca (Some Checkpoint) None = Some cp \<and> blockHash (block cp) = bh)"
  then show "\<exists>msg. createDiff e s ca bh d = (Inl (AssertionError msg), s)"
    by (rule createDiff_blocked)
next
  assume a: "staged \<in> set (getIPLDBlocks s (Some bh) None (Some DiffStaged) None) \<and>
    getLatestIPLDBlock s (contractAddress staged) (Some Checkpoint) None = Some cp' \<and>
    blockHash (block cp') = bh"
  show "\<exists>err s'. finalizeDiffStaged e s bh = (Inl err, s') \<and>
             contractRows s' (contractAddress staged) = contractRows s (contractAddress staged)"
  proof (cases "getBlockProgress s bh")
    case None
    then show ?thesis
      by (simp add: finalizeDiffStaged_def)
  next
    case (Some blk)
    then have h: "blockHash blk = bh"
      by (rule getBlockProgress_hash)
    have "\<forall>x\<in>set (getIPLDBlocks s (Some bh) None (Some DiffStaged) None). blockHash (block x) = bh"
      by (simp add: getIPLDBlocks_def)
    from createDiffs_blocked [OF _ this, of "contractAddress staged" s cp' e] a
    obtain err s' where "createDiffs e s (getIPLDBlocks s (Some bh) None (Some DiffStaged) None) = (Inl err, s')"
      "contractRows s' (contractAddress staged) = contractRows s (contractAddress staged)"
      by blast
    with Some h show ?thesis
      by (simp add: finalizeDiffStaged_def)
  qed
qed

theorem createDiff_needs_earlier_checkpoint_witness:
  "getLatestIPLDBlock (chainStore 110 [checkpoint100, checkpoint105, staged105]) ''C'' (Some Checkpoint) None
     = Some checkpoint105 \<and>
   blockHash (block checkpoint105) = ''0x69'' \<and>
   staged105 \<in> set (getIPLDBlocks (chainStore 110 [checkpoint100, checkpoint105, staged105])
                      (Some ''0x69'') None (Some DiffStaged) None) \<and>
   contractAddress staged105 = ''C'' \<and>
   (\<exists>msg. createDiff env0 (chainStore 110 [checkpoint100, checkpoint105, staged105]) ''C'' ''0x69''
             (JObj [(''state'', balance 60)])
           = (Inl (AssertionError msg), chainStore 110 [checkpoint100, checkpoint105, staged105])) \<and>
   (\<exists>err s'. finalizeDiffStaged env0 (chainStore 110 [checkpoint100, checkpoint105, staged105]) ''0x69''
             = (Inl err, s') \<and>
           contractRows s' ''C'' = contractRows (chainStore 110 [checkpoint100, checkpoint105, staged105]) ''C'')"
proof -
  let ?s = "chainStore 110 [checkpoint100, checkpoint105, staged105]"
  have a: "getLatestIPLDBlock ?s ''C'' (Some Checkpoint) None = Some checkpoint105"
    by (simp add: getLatestIPLDBlock_def chainStore_def checkpoint100_def checkpoint105_def staged105_def
        stateRow_def mkBlock_def)
  have b: "blockHash (block checkpoint105) = ''0x69''"
    by (simp add: checkpoint105_def stateRow_def mkBlock_def)
  have c: "staged105 \<in> set (getIPLDBlocks ?s (Some ''0x69'') None (Some DiffStaged) None)"
    by (simp add: getIPLDBlocks_def chainStore_def checkpoint100_def checkpoint105_def staged105_def
        stateRow_def mkBlock_def)
  have d: "contractAddress staged105 = ''C''"
    by (simp add: staged105_def stateRow_def)
  note t = createDiff_needs_earlier_checkpoint [where s = ?s and ca = "''C''" and bh = "''0x69''"
      and e = env0 and d = "JObj [(''state'', balance 60)]" and staged = staged105 and cp' = checkpoint105]
  from t a b c d show ?thesis
    by auto
qed

subsection \<open>Uniqueness of rows\<close>

lemma uniqueRows_save: "uniqueRows s \<Longrightarrow> uniqueRows (saveOrUpdateIPLDBlock s r)"
  by (auto simp: uniqueRows_def saveOrUpdateIPLDBlock_def map_rowKey_upsert)

lemma createDiffStaged_cases:
  assumes "createDiffStaged e s ca bh d = (res, s')"
  shows "s' = s \<or> (\<exists>blk r. getBlockProgress s bh = Some blk \<and>
            prepareIPLDBlock e s blk ca d DiffStaged = Inr r \<and>
            res = Inr () \<and> s' = saveOrUpdateIPLDBlock s r)"
  using assms by (auto simp: createDiffStaged_def split: option.splits sum.splits)

lemma createCheckpoint_unique:
  assumes "uniqueRows s"
    and hook: "\<forall>s ca bh. uniqueRows s \<longrightarrow> uniqueRows (snd (createStateCheckpoint e s ca bh))"
  shows "uniqueRows (snd (createCheckpoint e s ca bh d i))"
proof -
  have hk: "\<And>h a b. createStateCheckpoint e s ca h = (a, b) \<Longrightarrow> uniqueRows b"
    using assms by (metis snd_conv)
  from assms(1) show ?thesis
    unfolding createCheckpoint_def
    by (auto split: option.splits sum.splits prod.splits simp: Let_def uniqueRows_save dest: hk)
qed

lemma applyOp_unique:
  assumes "uniqueRows s"
    and hook: "\<forall>s ca bh. uniqueRows s \<longrightarrow> uniqueRows (snd (createStateCheckpoint e s ca bh))"
  shows "uniqueRows (applyOp e s op)"
proof (cases op)
  case (CreateDiffStaged ca bh d)
  obtain res s' where r: "createDiffStaged e s ca bh d = (res, s')"
    by (cases "createDiffStaged e s ca bh d") blast
  from createDiffStaged_cases [OF r] assms(1) r CreateDiffStaged show ?thesis
    by (auto simp: uniqueRows_save)
next
  case (CreateDiff ca bh d)
  obtain res s' where r: "createDiff e s ca bh d = (res, s')"
    by (cases "createDiff e s ca bh d") blast
  from createDiff_cases [OF r] assms(1) r CreateDiff show ?thesis
    by (auto simp: uniqueRows_save)
next
  case (CreateCheckpoint ca bh d i)
  with createCheckpoint_unique [OF assms] show ?thesis
    by simp
qed

lemma runOps_unique:
  assumes "uniqueRows s"
    and hook: "\<forall>s ca bh. uniqueRows s \<longrightarrow> uniqueRows (snd (createStateCheckpoint e s ca bh))"
  shows "uniqueRows (runOps e s ops)"
  using assms(1) unfolding runOps_def
proof (induction ops arbitrary: s)
  case Nil
  then show ?case by simp
next
  case (Cons op ops)
  from applyOp_unique [OF Cons.prems hook] have "uniqueRows (applyOp e s op)" .
  then have "uniqueRows (foldl (applyOp e) (applyOp e s op) ops)"
    by (rule Cons.IH)
  then show ?case by simp
qed

lemma distinct_filter_key: "distinct (map f xs) \<Longrightarrow> length (filter (\<lambda>x. f x = y) xs) \<le> 1"
proof (induction xs)
  case Nil
  then show ?case by simp
next
  case (Cons x xs)
  show ?case
  proof (cases "f x = y")
    case True
    with Cons.prems have "y \<notin> f ` set xs"
      by simp
    then have "\<forall>z\<in>set xs. f z \<noteq> y"
      by (metis imageI)
    then have "filter (\<lambda>x. f x = y) xs = []"
      by (simp add: filter_empty_conv)
    with True show ?thesis by simp
  next
    case False
    with Cons show ?thesis by simp
  qed
qed

lemma uniqueRows_rowsAt: "uniqueRows s \<Longrightarrow> length (rowsAt s bh ca k) \<le> 1"
  using distinct_filter_key [of rowKey "ipldBlocks s" "(bh, ca, k)"]
  by (simp add: uniqueRows_def rowsAt_filter)

text \<open>
  Claim C3 (invariant I1): at most one row for a (blockHash, contractAddress, kind), an
  operation on an existing triple updating that row in place. With the keyed upsert the
  rows stay unique whatever row is saved (\<open>runOps_unique\<close>), but the row an operation
  saves is not always the one it looked up: \<^verbatim>\<open>prepareIPLDBlock\<close> fetches the row of the
  kind it is asked for, merges the new payload into that row's payload, and then takes
  the kind of the row from \<^verbatim>\<open>data.meta.kind\<close> of the merged payload (line 466). A payload
  that carries a \<^verbatim>\<open>meta\<close> of another kind, as every staged payload that
  \<^verbatim>\<open>finalizeDiffStaged\<close> hands to \<^verbatim>\<open>createDiff\<close> does, changes the kind. Here contract \<open>C\<close> has
  a \<^verbatim>\<open>diff\<close> row and a staged row at block 105, and \<^verbatim>\<open>createDiff\<close> is called for that block
  with the payload of the staged row: the row prepared for the kind \<^verbatim>\<open>'diff'\<close> has the kind
  \<^verbatim>\<open>'diff_staged'\<close>, the \<^verbatim>\<open>diff\<close> row stays as it was, and the merged state lands in the
  staged row. Without the staged row in the store, as after a first \<^verbatim>\<open>createDiff\<close> at the
  block, the call adds a row of kind \<^verbatim>\<open>'diff_staged'\<close> to the checkpoint and the diff.
\<close>

theorem createDiff_staged_payload_misses_row:
  "rowsAt (chainStore 110 [checkpoint100, diffOwner105, staged105]) ''0x69'' ''C'' Diff = [diffOwner105] \<and>
   getProp (readKey (data staged105) ''meta'') ''kind'' = DiffStaged \<and>
   map_sum id kind
     (prepareIPLDBlock env0 (chainStore 110 [checkpoint100, diffOwner105, staged105]) (mkBlock ''0x69'' 105)
        ''C'' (JObj (data staged105)) Diff) = Inr DiffStaged \<and>
   fst (createDiff env0 (chainStore 110 [checkpoint100, diffOwner105, staged105]) ''C'' ''0x69''
          (JObj (data staged105)))
     = Inr () \<and>
   rowsAt (snd (createDiff env0 (chainStore 110 [checkpoint100, diffOwner105, staged105]) ''C'' ''0x69''
                  (JObj (data staged105))))
     ''0x69'' ''C'' Diff = [diffOwner105] \<and>
   map stateOf (rowsAt (chainStore 110 [checkpoint100, diffOwner105, staged105]) ''0x69'' ''C'' DiffStaged)
     = [JObj [(''balance'', JInt 50)]] \<and>
   map stateOf (rowsAt (snd (createDiff env0 (chainStore 110 [checkpoint100, diffOwner105, staged105]) ''C''
                               ''0x69'' (JObj (data staged105))))
                  ''0x69'' ''C'' DiffStaged)
     = [JObj [(''balance'', JInt 50), (''owner'', JStr ''o'')]] \<and>
   map kind (ipldBlocks (runOps env0 (chainStore 110 [checkpoint100])
       [CreateDiff ''C'' ''0x69'' (JObj [(''state'', JObj [(''balance'', JInt 7), (''owner'', JStr ''o'')])]),
        CreateDiff ''C'' ''0x69'' (JObj (data staged105))]))
     = [Checkpoint, Diff, DiffStaged]"
  by code_simp

subsection \<open>Preparing a row\<close>

lemma encode_items_ok: "encode_items xs \<noteq> None \<longleftrightarrow> list_all encodable xs"
  by (induction xs) (auto simp: encodable_def split: option.splits)

lemma encode_entries_ok: "encode_entries kvs \<noteq> None \<longleftrightarrow> list_all (\<lambda>kv. encodable (snd kv)) kvs"
  by (induction kvs) (auto simp: encodable_def split: option.splits)

lemma encodable_simps [simp]:
  "encodable JUndefined = False"
  "encodable JNull"
  "encodable (JBool b)"
  "encodable (JInt i) \<longleftrightarrow> - 18446744073709551616 \<le> i \<and> i < 18446744073709551616"
  "encodable (JStr t)"
  "encodable (JArr xs) \<longleftrightarrow> list_all encodable xs"
  "encodable (JObj kvs) \<longleftrightarrow> list_all (\<lambda>kv. encodable (snd kv)) kvs"
  using encode_items_ok [of xs] encode_entries_ok [of kvs]
  by (auto simp: encodable_def)

lemma computeCid_ok: "encodable v \<Longrightarrow> \<exists>c. computeCid h v = Some c"
  by (auto simp: computeCid_def encodable_def split: option.splits)

lemma computeCid_None: "computeCid h v = None \<longleftrightarrow> \<not> encodable v"
  by (auto simp: computeCid_def encodable_def split: option.splits)

lemma metaKind_newMeta [simp]:
  "metaKind (AList.update ''meta'' (newMeta blk ca k p) kvs) = Inr k"
  unfolding metaKind_def readKey_update
  by (simp add: newMeta_def readKey_def)

lemma encodable_newMeta:
  "encodable (newMeta blk ca k p) \<longleftrightarrow>
     encodable k \<and> - 18446744073709551616 \<le> blockNumber blk \<and> blockNumber blk < 18446744073709551616"
  by (auto simp: newMeta_def split: option.splits)

lemma preparedData_fresh:
  "rowsAt s (blockHash blk) ca k = [] \<Longrightarrow>
     preparedData s blk ca (JObj kvs) k =
       Inr (AList.update ''meta'' (newMeta blk ca k (getLatestIPLDBlock s ca None (Some (blockNumber blk)))) kvs)"
  by (simp add: preparedData_def rowsAt_def)

lemma preparedData_fresh_object:
  "rowsAt s (blockHash blk) ca k = [] \<Longrightarrow> preparedData s blk ca d k = Inr d' \<Longrightarrow>
     \<exists>kvs. d = JObj kvs"
  by (cases d) (auto simp: preparedData_def rowsAt_def)

lemma prepareIPLDBlock_fresh:
  assumes "rowsAt s (blockHash blk) ca k = []"
    and "prepareIPLDBlock e s blk ca d k = Inr new"
  shows "\<exists>kvs. d = JObj kvs \<and> block new = blk \<and> contractAddress new = ca \<and> kind new = k \<and>
           data new = AList.update ''meta''
                        (newMeta blk ca k (getLatestIPLDBlock s ca None (Some (blockNumber blk)))) kvs"
proof -
  from assms(2) obtain d' where d': "preparedData s blk ca d k = Inr d'"
    by (auto simp: prepareIPLDBlock_def split: sum.splits if_splits)
  from preparedData_fresh_object [OF assms(1) d'] obtain kvs where kvs: "d = JObj kvs"
    by blast
  with d' preparedData_fresh [OF assms(1)] have
    "d' = AList.update ''meta'' (newMeta blk ca k (getLatestIPLDBlock s ca None (Some (blockNumber blk)))) kvs"
    by simp
  with assms(2) d' kvs show ?thesis
    by (auto simp: prepareIPLDBlock_def split: option.splits if_splits)
qed

lemma list_all_update:
  "P (k, v) \<Longrightarrow> list_all P kvs \<Longrightarrow> list_all P (AList.update k v kvs)"
  by (induction kvs) auto

lemma prepareIPLDBlock_fresh_ok:
  assumes "rowsAt s (blockHash blk) ca k = []"
    and "list_all (\<lambda>kv. encodable (snd kv)) kvs"
    and "- 18446744073709551616 \<le> blockNumber blk" "blockNumber blk < 18446744073709551616"
    and "k \<in> set [Diff, Checkpoint, DiffStaged]"
  shows "\<exists>new. prepareIPLDBlock e s blk ca (JObj kvs) k = Inr new"
proof -
  let ?m = "newMeta blk ca k (getLatestIPLDBlock s ca None (Some (blockNumber blk)))"
  have "encodable k"
    using assms(5) by auto
  then have "encodable ?m"
    using assms(3,4) by (simp add: encodable_newMeta)
  with assms(2) have "encodable (JObj (AList.update ''meta'' ?m kvs))"
    by (simp add: list_all_update)
  from computeCid_ok [OF this] obtain c where "computeCid (sha256 e) (JObj (AList.update ''meta'' ?m kvs)) = Some c"
    by blast
  with preparedData_fresh [OF assms(1)] assms(5) show ?thesis
    by (simp add: prepareIPLDBlock_def)
qed

lemma latestOf_None: "latestOf xs = None \<longleftrightarrow> xs = []"
  by (induction xs) (auto split: option.splits)

lemma latestOf_max: "latestOf xs = Some p \<Longrightarrow> r \<in> set xs \<Longrightarrow> blockNumber (block r) \<le> blockNumber (block p)"
  by (induction xs arbitrary: p) (auto split: option.splits if_splits simp: latestOf_None)

lemma parentOf_fresh:
  "data new = AList.update ''meta'' (newMeta blk ca k p) kvs \<Longrightarrow>
     parentOf new = (case p of None \<Rightarrow> JNull | Some q \<Rightarrow> JStr (cid q))"
  unfolding parentOf_def
  by (simp add: readKey_update) (simp add: newMeta_def readKey_def)

text \<open>
  Claim C4 (invariant I2), as the code has it. A state block that \<^verbatim>\<open>prepareIPLDBlock\<close>
  creates (there is no row yet for its block, contract and kind) has as \<^verbatim>\<open>meta.parent\<close> the
  identifier of the most recent state block of any kind that the contract has at or
  below the new block's number: a row of the contract at a block number not above the
  new one and not below that of any other such row; it is null when the contract has no
  row at or below that number. The parent can be a row of the same block number.
\<close>

theorem parent_is_latest_at_or_below:
  assumes "prepareIPLDBlock e s blk ca d k = Inr new"
    and "rowsAt s (blockHash blk) ca k = []"
  shows "(case getLatestIPLDBlock s ca None (Some (blockNumber blk)) of
            None \<Rightarrow> parentOf new = JNull \<and>
                    \<not> (\<exists>r\<in>set (ipldBlocks s). contractAddress r = ca \<and> blockNumber (block r) \<le> blockNumber blk)
          | Some p \<Rightarrow> parentOf new = JStr (cid p) \<and>
                    p \<in> set (ipldBlocks s) \<and> contractAddress p = ca \<and>
                    blockNumber (block p) \<le> blockNumber blk \<and>
                    (\<forall>r\<in>set (ipldBlocks s). contractAddress r = ca \<and> blockNumber (block r) \<le> blockNumber blk
                        \<longrightarrow> blockNumber (block r) \<le> blockNumber (block p)))"
proof -
  let ?cands = "filter (\<lambda>r. contractAddress r = ca \<and> blockNumber (block r) \<le> blockNumber blk) (ipldBlocks s)"
  have latest: "getLatestIPLDBlock s ca None (Some (blockNumber blk)) = latestOf ?cands"
    by (simp add: getLatestIPLDBlock_def)
  from prepareIPLDBlock_fresh [OF assms(2,1)] obtain kvs where
    dat: "data new = AList.update ''meta'' (newMeta blk ca k (getLatestIPLDBlock s ca None (Some (blockNumber blk)))) kvs"
    by blast
  have par: "parentOf new = (case getLatestIPLDBlock s ca None (Some (blockNumber blk)) of
                None \<Rightarrow> JNull | Some q \<Rightarrow> JStr (cid q))"
    using dat by (rule parentOf_fresh)
  show ?thesis
  proof (cases "latestOf ?cands")
    case None
    then have "?cands = []"
      by (simp add: latestOf_None)
    then have "\<not> (\<exists>r\<in>set (ipldBlocks s). contractAddress r = ca \<and> blockNumber (block r) \<le> blockNumber blk)"
      by (simp add: filter_empty_conv)
    with None par latest show ?thesis
      by simp
  next
    case (Some p)
    from latestOf_mem [OF Some] have p: "p \<in> set (ipldBlocks s)" "contractAddress p = ca"
      "blockNumber (block p) \<le> blockNumber blk"
      by auto
    have "\<forall>r\<in>set (ipldBlocks s). contractAddress r = ca \<and> blockNumber (block r) \<le> blockNumber blk
                        \<longrightarrow> blockNumber (block r) \<le> blockNumber (block p)"
      using latestOf_max [OF Some] by simp
    with Some par latest p show ?thesis
      by simp
  qed
qed

text \<open>The claim as stated ("strictly before this block number") fails: with a diff of the
  contract at block 105, a checkpoint created at block 105 gets that diff as its parent,
  a row of the same block number.\<close>

theorem parent_same_block_counterexample:
  "map parentOf (rowsAt (snd (createCheckpoint env0 (chainStore 110 [checkpoint100, diff105 50]) ''C''
                                (Some ''0x69'') (JObj [(''state'', balance 50)]) None))
                   ''0x69'' ''C'' Checkpoint)
     = [JStr (cid (diff105 50))] \<and>
   blockNumber (block (diff105 50)) = 105 \<and>
   blockNumber (mkBlock ''0x69'' 105) = 105 \<and>
   \<not> blockNumber (block (diff105 50)) < blockNumber (mkBlock ''0x69'' 105)"
  by code_simp

theorem parent_is_latest_at_or_below_witness:
  "prepareIPLDBlock env0 (chainStore 110 [checkpoint100, diff105 50]) (mkBlock ''0x69'' 105) ''C''
       (JObj [(''state'', balance 50)]) Checkpoint
     = Inr (projr (prepareIPLDBlock env0 (chainStore 110 [checkpoint100, diff105 50]) (mkBlock ''0x69'' 105)
                     ''C'' (JObj [(''state'', balance 50)]) Checkpoint)) \<and>
   rowsAt (chainStore 110 [checkpoint100, diff105 50]) (blockHash (mkBlock ''0x69'' 105)) ''C'' Checkpoint = [] \<and>
   getLatestIPLDBlock (chainStore 110 [checkpoint100, diff105 50]) ''C'' None
       (Some (blockNumber (mkBlock ''0x69'' 105)))
     = Some (diff105 50) \<and>
   parentOf (projr (prepareIPLDBlock env0 (chainStore 110 [checkpoint100, diff105 50]) (mkBlock ''0x69'' 105)
                      ''C'' (JObj [(''state'', balance 50)]) Checkpoint))
     = JStr (cid (diff105 50)) \<and>
   blockNumber (block (diff105 50)) \<le> blockNumber (mkBlock ''0x69'' 105)"
proof -
  let ?s = "chainStore 110 [checkpoint100, diff105 50]"
  let ?blk = "mkBlock ''0x69'' 105"
  let ?d = "JObj [(''state'', balance 50)]"
  have a: "rowsAt ?s (blockHash ?blk) ''C'' Checkpoint = []"
    by (simp add: rowsAt_def getIPLDBlocks_def chainStore_def checkpoint100_def diff105_def
        stateRow_def mkBlock_def)
  have "\<exists>new. prepareIPLDBlock env0 ?s ?blk ''C'' ?d Checkpoint = Inr new"
    by (rule prepareIPLDBlock_fresh_ok [OF a]) (simp_all add: balance_def mkBlock_def)
  then have b: "prepareIPLDBlock env0 ?s ?blk ''C'' ?d Checkpoint
      = Inr (projr (prepareIPLDBlock env0 ?s ?blk ''C'' ?d Checkpoint))"
    by auto
  have c: "getLatestIPLDBlock ?s ''C'' None (Some (blockNumber ?blk)) = Some (diff105 50)"
    by (simp add: getLatestIPLDBlock_def chainStore_def checkpoint100_def diff105_def
        stateRow_def mkBlock_def)
  from parent_is_latest_at_or_below [OF b a] a b c show ?thesis
    by simp
qed

subsection \<open>Compaction\<close>

lemma foldl_merge_None:
  "foldl (\<lambda>acc D. case acc of None \<Rightarrow> None | Some a \<Rightarrow> lodash_merge a D) None Ds = None"
  by (induction Ds) simp_all

lemma mergeDiffStates_foldMerge:
  "mergeDiffStates st diffs = foldMerge st (map stateOf diffs)"
  unfolding foldMerge_def
proof (induction diffs arbitrary: st)
  case Nil
  then show ?case by simp
next
  case (Cons x xs)
  then show ?case
    by (cases "lodash_merge st (readKey (data x) ''state'')")
      (simp_all add: stateOf_def foldl_merge_None)
qed

lemma save_fresh:
  assumes "rowsAt s (blockHash (block r)) (contractAddress r) (kind r) = []"
  shows "saveOrUpdateIPLDBlock s r = s\<lparr>ipldBlocks := ipldBlocks s @ [r]\<rparr>"
proof -
  from assms have "\<forall>x\<in>set (ipldBlocks s). rowKey x \<noteq> rowKey r"
    by (simp add: rowsAt_filter filter_empty_conv rowKey_def)
  then have "rowKey r \<notin> rowKey ` set (ipldBlocks s)"
    by (metis imageE)
  then show ?thesis
    by (simp add: saveOrUpdateIPLDBlock_def upsert_append)
qed

lemma diffs_sorted:
  "sorted (map (\<lambda>r. blockNumber (block r)) (getDiffIPLDBlocksByCheckpoint s ca n))"
  by (simp add: getDiffIPLDBlocksByCheckpoint_def)

lemma diffs_set:
  "set (getDiffIPLDBlocksByCheckpoint s ca n) =
     {r \<in> set (ipldBlocks s). contractAddress r = ca \<and> kind r = Diff \<and> n < blockNumber (block r)}"
  by (auto simp: getDiffIPLDBlocksByCheckpoint_def)

text \<open>
  Claim C1, as the code has it. \<^verbatim>\<open>createCheckpoint\<close> asks for the diffs with the
  checkpoint's block number alone (line 350), so it folds every \<^verbatim>\<open>diff\<close> row of the
  contract above \<open>N0\<close>, the ones above the target block too. A call without data that
  passes the assertions and the interval test, with the contract's checkpoint of state
  \<open>S0\<close> at block \<open>N0\<close>, a checkpoint hook that leaves the default compaction on, and no
  checkpoint of the contract at the target block yet, appends a checkpoint row at the
  target block whose state is the left fold \<open>merge(merge(...merge(S0, D1)...), Dk)\<close> over
  the states of all the contract's \<^verbatim>\<open>diff\<close> rows \<open>D1..Dk\<close> with block numbers above \<open>N0\<close>,
  taken in ascending block number order, and returns the target block's hash. These are
  the diff rows between \<open>N0\<close> and the target block when the contract has none above the
  target. (The fold has to stay inside the payload type and the result has to be a value
  the encoder takes.)
\<close>

theorem createCheckpoint_folds_diffs:
  assumes "getSyncStatus s = Some status"
    and "resolveCurrentBlock s status bh = Some currentBlock"
    and "\<not> truthy d"
    and "isComplete currentBlock"
    and "blockNumber currentBlock \<le> latestCanonicalBlockNumber status"
    and "0 \<le> blockNumber currentBlock" and "blockNumber currentBlock < 18446744073709551616"
    and "getLatestIPLDBlock s ca (Some Checkpoint) (Some (blockNumber currentBlock)) = Some checkpointBlock"
    and "\<forall>i. checkpointInterval = Some i \<longrightarrow> i \<le> blockNumber currentBlock - blockNumber (block checkpointBlock)"
    and "createStateCheckpoint e s ca (blockHash currentBlock) = (Inr False, s1)"
    and "rowsAt s1 (blockHash currentBlock) ca Checkpoint = []"
    and "diffs = getDiffIPLDBlocksByCheckpoint s1 ca (blockNumber (block checkpointBlock))"
    and "foldMerge (stateOf checkpointBlock) (map stateOf diffs) = Some st"
    and "encodable st"
  shows "sorted (map (\<lambda>r. blockNumber (block r)) diffs) \<and>
         set diffs = {r \<in> set (ipldBlocks s1). contractAddress r = ca \<and> kind r = Diff \<and>
                        blockNumber (block checkpointBlock) < blockNumber (block r)} \<and>
         ((\<forall>r\<in>set (ipldBlocks s1). contractAddress r = ca \<and> kind r = Diff
              \<longrightarrow> blockNumber (block r) \<le> blockNumber currentBlock) \<longrightarrow>
          set diffs = {r \<in> set (ipldBlocks s1). contractAddress r = ca \<and> kind r = Diff \<and>
                         blockNumber (block checkpointBlock) < blockNumber (block r) \<and>
                         blockNumber (block r) \<le> blockNumber currentBlock}) \<and>
         (\<exists>new. createCheckpoint e s ca bh d checkpointInterval
                  = (Inr (Some (blockHash currentBlock)), s1\<lparr>ipldBlocks := ipldBlocks s1 @ [new]\<rparr>) \<and>
                block new = currentBlock \<and> contractAddress new = ca \<and> kind new = Checkpoint \<and>
                stateOf new = st)"
proof (intro conjI)
  show "sorted (map (\<lambda>r. blockNumber (block r)) diffs)"
    unfolding assms(12) by (rule diffs_sorted)
  show all: "set diffs = {r \<in> set (ipldBlocks s1). contractAddress r = ca \<and> kind r = Diff \<and>
                        blockNumber (block checkpointBlock) < blockNumber (block r)}"
    unfolding assms(12) by (rule diffs_set)
  show "(\<forall>r\<in>set (ipldBlocks s1). contractAddress r = ca \<and> kind r = Diff
              \<longrightarrow> blockNumber (block r) \<le> blockNumber currentBlock) \<longrightarrow>
          set diffs = {r \<in> set (ipldBlocks s1). contractAddress r = ca \<and> kind r = Diff \<and>
                         blockNumber (block checkpointBlock) < blockNumber (block r) \<and>
                         blockNumber (block r) \<le> blockNumber currentBlock}"
    unfolding all by blast
  have gate: "\<not> (checkpointInterval \<noteq> None \<and> checkpointInterval \<noteq> Some 0 \<and>
        blockNumber (block checkpointBlock) > blockNumber currentBlock - the checkpointInterval)"
    using assms(9) by (cases checkpointInterval) auto
  have merged: "mergeDiffStates (readKey (data checkpointBlock) ''state'')
      (getDiffIPLDBlocksByCheckpoint s1 ca (blockNumber (block checkpointBlock))) = Some st"
    using assms(12,13) by (simp add: mergeDiffStates_foldMerge stateOf_def)
  have "\<exists>new. prepareIPLDBlock e s1 currentBlock ca (JObj [(''state'', st)]) Checkpoint = Inr new"
    using assms(6,7,14) by (intro prepareIPLDBlock_fresh_ok [OF assms(11)]) simp_all
  then obtain new where new: "prepareIPLDBlock e s1 currentBlock ca (JObj [(''state'', st)]) Checkpoint = Inr new"
    by blast
  from prepareIPLDBlock_fresh [OF assms(11) new] have props:
    "block new = currentBlock" "contractAddress new = ca" "kind new = Checkpoint"
    and dat: "data new = AList.update ''meta''
        (newMeta currentBlock ca Checkpoint (getLatestIPLDBlock s1 ca None (Some (blockNumber currentBlock))))
        [(''state'', st)]"
    by auto
  from dat have st: "stateOf new = st"
    by (simp add: stateOf_def readKey_def)
  from props assms(11) have "saveOrUpdateIPLDBlock s1 new = s1\<lparr>ipldBlocks := ipldBlocks s1 @ [new]\<rparr>"
    by (intro save_fresh) simp
  with assms(1-5,8,10) gate merged new have
    "createCheckpoint e s ca bh d checkpointInterval
       = (Inr (Some (blockHash currentBlock)), s1\<lparr>ipldBlocks := ipldBlocks s1 @ [new]\<rparr>)"
    by (simp add: createCheckpoint_def)
  with props st show "\<exists>new. createCheckpoint e s ca bh d checkpointInterval
                  = (Inr (Some (blockHash currentBlock)), s1\<lparr>ipldBlocks := ipldBlocks s1 @ [new]\<rparr>) \<and>
                block new = currentBlock \<and> contractAddress new = ca \<and> kind new = Checkpoint \<and>
                stateOf new = st"
    by blast
qed


text \<open>The claim as stated, with the diffs up to the target block, fails when the contract
  has a diff above the target: with the checkpoint \<open>{balance: 0}\<close> at block 100 and diffs
  \<open>{balance: 50}\<close> at 105 and \<open>{balance: 70}\<close> at 110, the checkpoint made at block 108
  holds \<open>{balance: 70}\<close>, where the fold over the diffs up to block 108 is
  \<open>{balance: 50}\<close>.\<close>

theorem createCheckpoint_diff_above_target_counterexample:
  "fst (createCheckpoint env0 (chainStore 110 [checkpoint100, diff105 50, diff110 70]) ''C'' (Some ''0x6c'')
          JUndefined None) = Inr (Some ''0x6c'') \<and>
   filter (\<lambda>r. contractAddress r = ''C'' \<and> kind r = Diff \<and>
               blockNumber (block checkpoint100) < blockNumber (block r) \<and>
               blockNumber (block r) \<le> blockNumber (mkBlock ''0x6c'' 108))
     (ipldBlocks (chainStore 110 [checkpoint100, diff105 50, diff110 70])) = [diff105 50] \<and>
   foldMerge (stateOf checkpoint100) (map stateOf [diff105 50]) = Some (balance 50) \<and>
   map stateOf (rowsAt (snd (createCheckpoint env0 (chainStore 110 [checkpoint100, diff105 50, diff110 70]) ''C''
                               (Some ''0x6c'') JUndefined None))
                  ''0x6c'' ''C'' Checkpoint) = [balance 70]"
  by code_simp

text \<open>An instance with two diffs, stored out of block order, that change one key of the
  checkpoint's state, add another and leave a third as it was.\<close>

theorem createCheckpoint_folds_diffs_witness:
  "getSyncStatus (chainStore 110 [checkpointOwner100, diff108 70, diffNonce105]) = Some (status0 110) \<and>
   resolveCurrentBlock (chainStore 110 [checkpointOwner100, diff108 70, diffNonce105]) (status0 110) (Some ''0x6e'')
     = Some (mkBlock ''0x6e'' 110) \<and>
   \<not> truthy JUndefined \<and>
   isComplete (mkBlock ''0x6e'' 110) \<and>
   blockNumber (mkBlock ''0x6e'' 110) \<le> latestCanonicalBlockNumber (status0 110) \<and>
   getLatestIPLDBlock (chainStore 110 [checkpointOwner100, diff108 70, diffNonce105]) ''C'' (Some Checkpoint)
       (Some (blockNumber (mkBlock ''0x6e'' 110)))
     = Some checkpointOwner100 \<and>
   5 \<le> blockNumber (mkBlock ''0x6e'' 110) - blockNumber (block checkpointOwner100) \<and>
   createStateCheckpoint env0 (chainStore 110 [checkpointOwner100, diff108 70, diffNonce105]) ''C''
       (blockHash (mkBlock ''0x6e'' 110))
     = (Inr False, chainStore 110 [checkpointOwner100, diff108 70, diffNonce105]) \<and>
   rowsAt (chainStore 110 [checkpointOwner100, diff108 70, diffNonce105]) (blockHash (mkBlock ''0x6e'' 110))
       ''C'' Checkpoint = [] \<and>
   getDiffIPLDBlocksByCheckpoint (chainStore 110 [checkpointOwner100, diff108 70, diffNonce105]) ''C''
       (blockNumber (block checkpointOwner100))
     = [diffNonce105, diff108 70] \<and>
   stateOf checkpointOwner100 = JObj [(''balance'', JInt 0), (''owner'', JStr ''o'')] \<and>
   map stateOf [diffNonce105, diff108 70]
     = [JObj [(''balance'', JInt 50), (''nonce'', JInt 1)], JObj [(''balance'', JInt 70)]] \<and>
   foldMerge (stateOf checkpointOwner100) (map stateOf [diffNonce105, diff108 70])
     = Some (JObj [(''balance'', JInt 70), (''owner'', JStr ''o''), (''nonce'', JInt 1)]) \<and>
   encodable (JObj [(''balance'', JInt 70), (''owner'', JStr ''o''), (''nonce'', JInt 1)]) \<and>
   (\<exists>new. createCheckpoint env0 (chainStore 110 [checkpointOwner100, diff108 70, diffNonce105]) ''C''
             (Some ''0x6e'') JUndefined (Some 5)
           = (Inr (Some ''0x6e''),
              chainStore 110 [checkpointOwner100, diff108 70, diffNonce105]
                \<lparr>ipldBlocks := ipldBlocks (chainStore 110 [checkpointOwner100, diff108 70, diffNonce105]) @ [new]\<rparr>) \<and>
           kind new = Checkpoint \<and>
           stateOf new = JObj [(''balance'', JInt 70), (''owner'', JStr ''o''), (''nonce'', JInt 1)])"
proof -
  let ?s = "chainStore 110 [checkpointOwner100, diff108 70, diffNonce105]"
  let ?blk = "mkBlock ''0x6e'' 110"
  let ?st = "JObj [(''balance'', JInt 70), (''owner'', JStr ''o''), (''nonce'', JInt 1)]"
  note defs = chainStore_def checkpointOwner100_def diff108_def diffNonce105_def stateRow_def mkBlock_def
    status0_def
  have a: "getSyncStatus ?s = Some (status0 110)"
    by (simp add: getSyncStatus_def chainStore_def)
  have b: "resolveCurrentBlock ?s (status0 110) (Some ''0x6e'') = Some ?blk"
    by (simp add: resolveCurrentBlock_def getBlockProgress_def defs)
  have c: "\<not> truthy JUndefined"
    by simp
  have d: "isComplete ?blk"
    by (simp add: mkBlock_def)
  have f: "blockNumber ?blk \<le> latestCanonicalBlockNumber (status0 110)"
    by (simp add: defs)
  have f1: "0 \<le> blockNumber ?blk"
    by (simp add: defs)
  have f2: "blockNumber ?blk < 18446744073709551616"
    by (simp add: defs)
  have g: "getLatestIPLDBlock ?s ''C'' (Some Checkpoint) (Some (blockNumber ?blk)) = Some checkpointOwner100"
    by (simp add: getLatestIPLDBlock_def defs)
  have h: "5 \<le> blockNumber ?blk - blockNumber (block checkpointOwner100)"
    by (simp add: defs)
  then have h': "\<forall>i. Some 5 = Some i \<longrightarrow> i \<le> blockNumber ?blk - blockNumber (block checkpointOwner100)"
    by simp
  have i: "createStateCheckpoint env0 ?s ''C'' (blockHash ?blk) = (Inr False, ?s)"
    by (simp add: env0_def)
  have j: "rowsAt ?s (blockHash ?blk) ''C'' Checkpoint = []"
    by (simp add: rowsAt_def getIPLDBlocks_def defs)
  have k: "getDiffIPLDBlocksByCheckpoint ?s ''C'' (blockNumber (block checkpointOwner100))
      = [diffNonce105, diff108 70]"
    by (simp add: getDiffIPLDBlocksByCheckpoint_def defs balance_def)
  have k': "[diffNonce105, diff108 70] = getDiffIPLDBlocksByCheckpoint ?s ''C'' (blockNumber (block checkpointOwner100))"
    using k by simp
  have s0: "stateOf checkpointOwner100 = JObj [(''balance'', JInt 0), (''owner'', JStr ''o'')]"
    by (simp add: stateOf_def readKey_def defs)
  have ds: "map stateOf [diffNonce105, diff108 70]
      = [JObj [(''balance'', JInt 50), (''nonce'', JInt 1)], JObj [(''balance'', JInt 70)]]"
    by (simp add: stateOf_def readKey_def balance_def defs)
  have l: "foldMerge (stateOf checkpointOwner100) (map stateOf [diffNonce105, diff108 70]) = Some ?st"
    unfolding s0 ds by (simp add: foldMerge_def lodash_merge_def readKey_def)
  have m: "encodable ?st"
    by simp
  have n: "blockHash ?blk = ''0x6e''"
    by (simp add: mkBlock_def)
  from createCheckpoint_folds_diffs [OF a b c d f f1 f2 g h' i j k' l m] a b c d f g h i j k s0 ds l m n
  show ?thesis
    by auto
qed

subsection \<open>Finalization\<close>

lemma createDiff_fresh:
  assumes "createDiff e s ca bh (JObj kvs) = (Inr (), s')"
    and "rowsAt s bh ca Diff = []"
  shows "\<exists>new. s' = s\<lparr>ipldBlocks := ipldBlocks s @ [new]\<rparr> \<and> kind new = Diff \<and>
           blockHash (block new) = bh \<and> contractAddress new = ca \<and>
           stateOf new = readKey kvs ''state''"
proof -
  from assms(1) obtain blk new where blk: "getBlockProgress s bh = Some blk"
    and new: "prepareIPLDBlock e s blk ca (JObj kvs) Diff = Inr new"
    and s': "s' = saveOrUpdateIPLDBlock s new"
    by (auto simp: createDiff_def split: option.splits if_splits sum.splits)
  from blk have h: "blockHash blk = bh"
    by (rule getBlockProgress_hash)
  with assms(2) have none: "rowsAt s (blockHash blk) ca Diff = []"
    by simp
  from prepareIPLDBlock_fresh [OF none new] have props:
    "block new = blk" "contractAddress new = ca" "kind new = Diff"
    and dat: "data new = AList.update ''meta''
        (newMeta blk ca Diff (getLatestIPLDBlock s ca None (Some (blockNumber blk)))) kvs"
    by auto
  from dat have "stateOf new = readKey kvs ''state''"
    by (simp add: stateOf_def readKey_update)
  moreover from props none have "saveOrUpdateIPLDBlock s new = s\<lparr>ipldBlocks := ipldBlocks s @ [new]\<rparr>"
    by (intro save_fresh) simp
  ultimately show ?thesis
    using props h s' by auto
qed

lemma rowsAt_append:
  "rowsAt (s\<lparr>ipldBlocks := ipldBlocks s @ news\<rparr>) bh ca k =
     rowsAt s bh ca k @ filter (\<lambda>x. rowKey x = (bh, ca, k)) news"
  by (simp add: rowsAt_filter)

lemma createDiffs_fresh:
  assumes "createDiffs e s xs = (Inr (), s')"
    and "distinct (map contractAddress xs)"
    and "\<forall>x\<in>set xs. blockHash (block x) = bh \<and> rowsAt s bh (contractAddress x) Diff = []"
  shows "\<exists>news. s' = s\<lparr>ipldBlocks := ipldBlocks s @ news\<rparr> \<and>
           list_all (\<lambda>n. kind n = Diff) news \<and>
           (\<forall>x\<in>set xs. \<exists>n\<in>set news. blockHash (block n) = bh \<and>
                contractAddress n = contractAddress x \<and> stateOf n = stateOf x)"
  using assms
proof (induction xs arbitrary: s)
  case Nil
  then show ?case
    by (auto intro: exI [of _ "[]"])
next
  case (Cons x xs)
  from Cons.prems(1) obtain s1 where
    step: "createDiff e s (contractAddress x) (blockHash (block x)) (JObj (data x)) = (Inr (), s1)"
    and rest: "createDiffs e s1 xs = (Inr (), s')"
    by (auto split: prod.splits sum.splits)
  from Cons.prems(3) have bh: "blockHash (block x) = bh" and none: "rowsAt s bh (contractAddress x) Diff = []"
    by auto
  from createDiff_fresh [OF step [unfolded bh] none] obtain new where
    s1: "s1 = s\<lparr>ipldBlocks := ipldBlocks s @ [new]\<rparr>" and new: "kind new = Diff" "blockHash (block new) = bh"
    "contractAddress new = contractAddress x" "stateOf new = stateOf x"
    by (auto simp: stateOf_def)
  have "\<forall>y\<in>set xs. blockHash (block y) = bh \<and> rowsAt s1 bh (contractAddress y) Diff = []"
  proof
    fix y assume y: "y \<in> set xs"
    with Cons.prems(2) have "contractAddress y \<noteq> contractAddress x"
      by (metis distinct.simps(2) imageI list.simps(9) set_map)
    with y Cons.prems(3) new show "blockHash (block y) = bh \<and> rowsAt s1 bh (contractAddress y) Diff = []"
      by (simp add: s1 rowsAt_append rowKey_def)
  qed
  with Cons.IH [OF rest] Cons.prems(2) obtain news where
    s': "s' = s1\<lparr>ipldBlocks := ipldBlocks s1 @ news\<rparr>" and kinds: "list_all (\<lambda>n. kind n = Diff) news"
    and each: "\<forall>y\<in>set xs. \<exists>n\<in>set news. blockHash (block n) = bh \<and>
                contractAddress n = contractAddress y \<and> stateOf n = stateOf y"
    by auto
  have "s' = s\<lparr>ipldBlocks := ipldBlocks s @ (new # news)\<rparr>"
    using s' s1 by simp
  moreover have "list_all (\<lambda>n. kind n = Diff) (new # news)"
    using kinds new by simp
  moreover have "\<forall>y\<in>set (x # xs). \<exists>n\<in>set (new # news). blockHash (block n) = bh \<and>
                contractAddress n = contractAddress y \<and> stateOf n = stateOf y"
    using each new by auto
  ultimately show ?case
    by blast
qed

text \<open>
  Claim C2, as the code has it. Let block \<open>B\<close> have staged rows for contracts
  \<open>C1..Cn\<close>, one for each, and let none of these contracts have a \<^verbatim>\<open>diff\<close> row at \<open>B\<close>
  yet. When \<^verbatim>\<open>processCanonicalBlock(B)\<close> completes, with a post-canonicalization hook that
  neither removes or rewrites \<^verbatim>\<open>diff\<close> rows nor stages new ones, every \<open>Ci\<close> has a \<^verbatim>\<open>diff\<close>
  row at \<open>B\<close> whose state is the state of its staged row before the call, and no
  \<^verbatim>\<open>diff_staged\<close> row is left at \<open>B\<close>'s block number.
\<close>

theorem finalization_completeness:
  assumes "getBlockProgress s bh = Some blk"
    and "staged = getIPLDBlocks s (Some bh) None (Some DiffStaged) None"
    and "distinct (map contractAddress staged)"
    and "\<forall>x\<in>set staged. rowsAt s bh (contractAddress x) Diff = []"
    and "\<forall>s1 res s2. createStateDiff e s1 bh = (res, s2) \<longrightarrow>
           (\<forall>x\<in>set (ipldBlocks s1). kind x = Diff \<longrightarrow> x \<in> set (ipldBlocks s2)) \<and>
           (\<forall>x\<in>set (ipldBlocks s2). kind x = DiffStaged \<longrightarrow> x \<in> set (ipldBlocks s1))"
    and "processCanonicalBlock e s bh = (Inr (), s')"
  shows "(\<forall>x\<in>set staged. \<exists>n\<in>set (ipldBlocks s'). kind n = Diff \<and> blockHash (block n) = bh \<and>
              contractAddress n = contractAddress x \<and> stateOf n = stateOf x) \<and>
         (\<forall>r\<in>set (ipldBlocks s'). \<not> (kind r = DiffStaged \<and> blockNumber (block r) = blockNumber blk))"
proof -
  from assms(1) have h: "blockHash blk = bh"
    by (rule getBlockProgress_hash)
  from assms(6) obtain sf where fin: "finalizeDiffStaged e s bh = (Inr (), sf)"
    and hook: "createStateDiff e sf bh = (Inr (), s')"
    by (auto simp: processCanonicalBlock_def split: prod.splits sum.splits)
  from fin assms(1,2) h obtain sd where loop: "createDiffs e s staged = (Inr (), sd)"
    and sf: "sf = removeStagedIPLDBlocks sd (blockNumber blk)"
    by (auto simp: finalizeDiffStaged_def split: prod.splits sum.splits)
  have "\<forall>x\<in>set staged. blockHash (block x) = bh \<and> rowsAt s bh (contractAddress x) Diff = []"
    using assms(2,4) by (simp add: getIPLDBlocks_def)
  from createDiffs_fresh [OF loop assms(3) this] obtain news where
    sd: "sd = s\<lparr>ipldBlocks := ipldBlocks s @ news\<rparr>" and kinds: "list_all (\<lambda>n. kind n = Diff) news"
    and each: "\<forall>x\<in>set staged. \<exists>n\<in>set news. blockHash (block n) = bh \<and>
                contractAddress n = contractAddress x \<and> stateOf n = stateOf x"
    by blast
  have in_sf: "\<forall>n\<in>set news. n \<in> set (ipldBlocks sf) \<and> kind n = Diff"
    using kinds by (auto simp: sf sd removeStagedIPLDBlocks_def list_all_iff)
  have no_staged: "\<forall>r\<in>set (ipldBlocks sf). \<not> (kind r = DiffStaged \<and> blockNumber (block r) = blockNumber blk)"
    by (auto simp: sf removeStagedIPLDBlocks_def)
  from assms(5) hook have keep: "\<forall>x\<in>set (ipldBlocks sf). kind x = Diff \<longrightarrow> x \<in> set (ipldBlocks s')"
    and nonew: "\<forall>x\<in>set (ipldBlocks s'). kind x = DiffStaged \<longrightarrow> x \<in> set (ipldBlocks sf)"
    by blast+
  show ?thesis
  proof (intro conjI ballI)
    fix x assume "x \<in> set staged"
    with each obtain n where n: "n \<in> set news" "blockHash (block n) = bh"
      "contractAddress n = contractAddress x" "stateOf n = stateOf x"
      by blast
    with in_sf keep have "n \<in> set (ipldBlocks s')" "kind n = Diff"
      by auto
    with n show "\<exists>n\<in>set (ipldBlocks s'). kind n = Diff \<and> blockHash (block n) = bh \<and>
              contractAddress n = contractAddress x \<and> stateOf n = stateOf x"
      by blast
  next
    fix r assume "r \<in> set (ipldBlocks s')"
    with nonew no_staged show "\<not> (kind r = DiffStaged \<and> blockNumber (block r) = blockNumber blk)"
      by blast
  qed
qed

text \<open>The claim as stated, for every block with staged rows, fails where the contract
  already has a \<^verbatim>\<open>diff\<close> row at the block: \<^verbatim>\<open>createDiff\<close> merges the staged payload into
  that row's payload instead of storing it, so the state of the staged row is not the
  state of any \<^verbatim>\<open>diff\<close> row afterwards. Here the diff at block 105 holds
  \<open>{balance: 7, owner: "o"}\<close> and the staged row \<open>{balance: 50}\<close>.\<close>

theorem finalization_existing_diff_counterexample:
  "fst (processCanonicalBlock env0 (chainStore 110 [checkpoint100, diffOwner105, staged105]) ''0x69'') = Inr () \<and>
   getIPLDBlocks (chainStore 110 [checkpoint100, diffOwner105, staged105]) (Some ''0x69'') None (Some DiffStaged) None
     = [staged105] \<and>
   stateOf staged105 = balance 50 \<and>
   balance 50 \<notin> set (map stateOf
       (getIPLDBlocks (snd (processCanonicalBlock env0 (chainStore 110 [checkpoint100, diffOwner105, staged105]) ''0x69''))
          (Some ''0x69'') (Some ''C'') (Some Diff) None))"
  by code_simp

theorem finalization_completeness_witness:
  "getBlockProgress (chainStore 110 [checkpoint100, staged105]) ''0x69'' = Some (mkBlock ''0x69'' 105) \<and>
   getIPLDBlocks (chainStore 110 [checkpoint100, staged105]) (Some ''0x69'') None (Some DiffStaged) None
     = [staged105] \<and>
   distinct (map contractAddress [staged105]) \<and>
   rowsAt (chainStore 110 [checkpoint100, staged105]) ''0x69'' (contractAddress staged105) Diff = [] \<and>
   fst (processCanonicalBlock env0 (chainStore 110 [checkpoint100, staged105]) ''0x69'') = Inr () \<and>
   (\<exists>n\<in>set (ipldBlocks (snd (processCanonicalBlock env0 (chainStore 110 [checkpoint100, staged105]) ''0x69''))).
       kind n = Diff \<and> blockHash (block n) = ''0x69'' \<and> contractAddress n = ''C'' \<and>
       stateOf n = balance 50) \<and>
   \<not> (\<exists>r\<in>set (ipldBlocks (snd (processCanonicalBlock env0 (chainStore 110 [checkpoint100, staged105]) ''0x69''))).
         kind r = DiffStaged \<and> blockNumber (block r) = 105)"
proof -
  let ?s = "chainStore 110 [checkpoint100, staged105]"
  note defs = chainStore_def checkpoint100_def staged105_def stateRow_def mkBlock_def
  have a: "getBlockProgress ?s ''0x69'' = Some (mkBlock ''0x69'' 105)"
    by (simp add: getBlockProgress_def defs)
  have b: "getIPLDBlocks ?s (Some ''0x69'') None (Some DiffStaged) None = [staged105]"
    by (simp add: getIPLDBlocks_def defs)
  have b': "[staged105] = getIPLDBlocks ?s (Some ''0x69'') None (Some DiffStaged) None"
    using b by simp
  have c: "distinct (map contractAddress [staged105])"
    by simp
  have d: "rowsAt ?s ''0x69'' (contractAddress staged105) Diff = []"
    by (simp add: rowsAt_def getIPLDBlocks_def defs)
  then have d': "\<forall>x\<in>set [staged105]. rowsAt ?s ''0x69'' (contractAddress x) Diff = []"
    by simp
  have f: "\<forall>s1 res s2. createStateDiff env0 s1 ''0x69'' = (res, s2) \<longrightarrow>
           (\<forall>x\<in>set (ipldBlocks s1). kind x = Diff \<longrightarrow> x \<in> set (ipldBlocks s2)) \<and>
           (\<forall>x\<in>set (ipldBlocks s2). kind x = DiffStaged \<longrightarrow> x \<in> set (ipldBlocks s1))"
    by (simp add: env0_def)
  have g: "fst (processCanonicalBlock env0 ?s ''0x69'') = Inr ()"
    by code_simp
  then have g': "processCanonicalBlock env0 ?s ''0x69'' = (Inr (), snd (processCanonicalBlock env0 ?s ''0x69''))"
    by (metis prod.collapse)
  have h: "stateOf staged105 = balance 50" "contractAddress staged105 = ''C''"
    "blockNumber (mkBlock ''0x69'' 105) = 105"
    by (simp_all add: stateOf_def readKey_def defs)
  from finalization_completeness [OF a b' c d' f g'] a b c d g h show ?thesis
    by simp
qed

subsection \<open>Staging twice\<close>

lemma rowsAt_save:
  "rowsAt (saveOrUpdateIPLDBlock s r) bh ca k =
     (if rowKey r = (bh, ca, k)
      then (case rowsAt s bh ca k of [] \<Rightarrow> [r] | x # xs \<Rightarrow> x\<lparr>cid := cid r, data := data r\<rparr> # xs)
      else rowsAt s bh ca k)"
proof (cases "rowKey r = (bh, ca, k)")
  case True
  have "filter (\<lambda>x. rowKey x = rowKey r) (upsert r rows) =
          (case filter (\<lambda>x. rowKey x = rowKey r) rows of [] \<Rightarrow> [r]
           | x # xs \<Rightarrow> x\<lparr>cid := cid r, data := data r\<rparr> # xs)" for rows
    by (induction rows) (auto simp: sameKey_rowKey)
  with True show ?thesis
    by (simp add: rowsAt_filter saveOrUpdateIPLDBlock_def)
next
  case False
  with filter_key_upsert [of "\<lambda>key. key = (bh, ca, k)" r "ipldBlocks s"] show ?thesis
    by (simp add: rowsAt_filter saveOrUpdateIPLDBlock_def)
qed

lemma prepareIPLDBlock_existing:
  assumes "rowsAt s (blockHash blk) ca k = [cur]"
    and "prepareIPLDBlock e s blk ca d k = Inr r"
  shows "lodash_merge (JObj (data cur)) d = Some (JObj (data r)) \<and> metaKind (data r) = Inr (kind r) \<and>
         block r = blk \<and> contractAddress r = ca"
  using assms
  by (auto simp: prepareIPLDBlock_def preparedData_def rowsAt_def
      split: sum.splits option.splits jvalue.splits if_splits)

lemma prepareIPLDBlock_many:
  assumes "1 < length (rowsAt s (blockHash blk) ca k)"
  shows "prepareIPLDBlock e s blk ca d k = Inl (AssertionError [])"
  using assms by (simp add: prepareIPLDBlock_def preparedData_def rowsAt_def)

lemma lodash_merge_again:
  assumes "wf_value d" and "lodash_merge a d = Some r"
  shows "lodash_merge r d = Some r"
proof (cases "truthy d")
  case False
  with assms(2) show ?thesis
    by (auto simp: lodash_merge_def split: jvalue.splits)
next
  case True
  show ?thesis
  proof (cases d)
    case (JObj skv)
    with assms(2) obtain okv ro where "baseMerge_obj okv skv = Some ro" "r = JObj ro"
      by (auto simp: lodash_merge_def split: jvalue.splits)
    with merge_again(2) [of skv okv ro] assms(1) JObj show ?thesis
      by (simp add: lodash_merge_def)
  next
    case (JArr ss)
    with assms(2) obtain os rs where "baseMerge_arr os ss = Some rs" "r = JArr rs"
      by (auto simp: lodash_merge_def split: jvalue.splits)
    with merge_again(3) [of ss os rs] assms(1) JArr show ?thesis
      by (simp add: lodash_merge_def)
  qed (use assms(2) True in \<open>auto simp: lodash_merge_def split: jvalue.splits\<close>)
qed

lemma baseMerge_obj_keeps:
  assumes "baseMerge_obj a b = Some m" and "distinct (map fst b)"
    and "\<forall>kv\<in>set b. fst kv = K \<longrightarrow> mergeValue (readKey a K) (snd kv) = Some (readKey a K)"
  shows "readKey m K = readKey a K"
proof (cases "K \<in> fst ` set b")
  case True
  then obtain kv where kv: "kv \<in> set b" "fst kv = K"
    by auto
  with baseMerge_obj_keys [OF assms(1,2)] have "mergeValue (readKey a K) (snd kv) = Some (readKey m K)"
    by auto
  with assms(3) kv show ?thesis
    by auto
next
  case False
  with baseMerge_obj_keys [OF assms(1,2)] show ?thesis
    by (simp add: readKey_def)
qed

lemma wf_entry: "wf_value (JObj kvs) \<Longrightarrow> kv \<in> set kvs \<Longrightarrow> wf_value (snd kv) \<and> map_of kvs (fst kv) = Some (snd kv)"
  by (cases kv) (auto simp: list_all_iff)

lemma fresh_state_kept:
  assumes "wf_value (JObj kvs)"
    and "lodash_merge (JObj (AList.update ''meta'' M kvs)) (JObj kvs) = Some (JObj m)"
  shows "readKey m ''state'' = readKey (AList.update ''meta'' M kvs) ''state''"
proof -
  from assms(2) have m: "baseMerge_obj (AList.update ''meta'' M kvs) kvs = Some m"
    by (simp add: lodash_merge_objects)
  from assms(1) have d: "distinct (map fst kvs)"
    by simp
  have "\<forall>kv\<in>set kvs. fst kv = ''state'' \<longrightarrow>
          mergeValue (readKey (AList.update ''meta'' M kvs) ''state'') (snd kv)
            = Some (readKey (AList.update ''meta'' M kvs) ''state'')"
  proof (intro ballI impI)
    fix kv assume kv: "kv \<in> set kvs" "fst kv = ''state''"
    from wf_entry [OF assms(1) kv(1)] kv(2) have "wf_value (snd kv)" "readKey kvs ''state'' = snd kv"
      by (auto simp: readKey_def)
    then show "mergeValue (readKey (AList.update ''meta'' M kvs) ''state'') (snd kv)
            = Some (readKey (AList.update ''meta'' M kvs) ''state'')"
      by (simp add: readKey_update merge_idem)
  qed
  from baseMerge_obj_keeps [OF m d this] show ?thesis .
qed

lemma list_length_cases: "xs = [] \<or> (\<exists>x. xs = [x]) \<or> 1 < length xs"
  by (cases xs; cases "tl xs") auto

lemma createDiffStaged_ok:
  assumes "createDiffStaged e s ca bh d = (Inr (), s1)"
  shows "\<exists>blk r. getBlockProgress s bh = Some blk \<and> blockHash blk = bh \<and>
           prepareIPLDBlock e s blk ca d DiffStaged = Inr r \<and> s1 = saveOrUpdateIPLDBlock s r"
  using assms
  by (auto simp: createDiffStaged_def dest: getBlockProgress_hash split: option.splits sum.splits)

lemma staged_after_first:
  assumes "wf_value d" and "createDiffStaged e s ca bh d = (Inr (), s1)"
  shows "\<exists>x. rowsAt s1 bh ca DiffStaged = [x] \<and>
           (\<forall>m. lodash_merge (JObj (data x)) d = Some (JObj m) \<and> metaKind m = Inr DiffStaged
                 \<longrightarrow> readKey m ''state'' = readKey (data x) ''state'')"
proof -
  from createDiffStaged_ok [OF assms(2)] obtain blk r where
    blk: "getBlockProgress s bh = Some blk" and h: "blockHash blk = bh"
    and r: "prepareIPLDBlock e s blk ca d DiffStaged = Inr r" and s1: "s1 = saveOrUpdateIPLDBlock s r"
    by blast
  consider (fresh) "rowsAt s bh ca DiffStaged = []"
    | (one) cur where "rowsAt s bh ca DiffStaged = [cur]"
    | (many) "1 < length (rowsAt s bh ca DiffStaged)"
    using list_length_cases [of "rowsAt s bh ca DiffStaged"] by blast
  then show ?thesis
  proof cases
    case fresh
    with h have none: "rowsAt s (blockHash blk) ca DiffStaged = []"
      by simp
    from prepareIPLDBlock_fresh [OF none r] obtain kvs where kvs: "d = JObj kvs"
      and props: "block r = blk" "contractAddress r = ca" "kind r = DiffStaged"
      and dat: "data r = AList.update ''meta''
          (newMeta blk ca DiffStaged (getLatestIPLDBlock s ca None (Some (blockNumber blk)))) kvs"
      by blast
    from props h have key: "rowKey r = (bh, ca, DiffStaged)"
      by (simp add: rowKey_def)
    with fresh have "rowsAt s1 bh ca DiffStaged = [r]"
      by (simp add: s1 rowsAt_save)
    moreover have "\<forall>m. lodash_merge (JObj (data r)) d = Some (JObj m) \<and> metaKind m = Inr DiffStaged
                 \<longrightarrow> readKey m ''state'' = readKey (data r) ''state''"
      using fresh_state_kept [of kvs] assms(1) kvs dat by auto
    ultimately show ?thesis
      by blast
  next
    case one
    with h have cur: "rowsAt s (blockHash blk) ca DiffStaged = [cur]"
      by simp
    from prepareIPLDBlock_existing [OF cur r] have
      m: "lodash_merge (JObj (data cur)) d = Some (JObj (data r))"
      and mk: "metaKind (data r) = Inr (kind r)"
      and props: "block r = blk" "contractAddress r = ca"
      by auto
    show ?thesis
    proof (cases "kind r = DiffStaged")
      case True
      with props h have key: "rowKey r = (bh, ca, DiffStaged)"
        by (simp add: rowKey_def)
      with one have "rowsAt s1 bh ca DiffStaged = [cur\<lparr>cid := cid r, data := data r\<rparr>]"
        by (simp add: s1 rowsAt_save)
      moreover from lodash_merge_again [OF assms(1) m]
      have "\<forall>m. lodash_merge (JObj (data (cur\<lparr>cid := cid r, data := data r\<rparr>))) d = Some (JObj m)
                   \<and> metaKind m = Inr DiffStaged
                 \<longrightarrow> readKey m ''state'' = readKey (data (cur\<lparr>cid := cid r, data := data r\<rparr>)) ''state''"
        by simp
      ultimately show ?thesis
        by blast
    next
      case False
      then have "rowKey r \<noteq> (bh, ca, DiffStaged)"
        by (simp add: rowKey_def)
      with one have "rowsAt s1 bh ca DiffStaged = [cur]"
        by (simp add: s1 rowsAt_save)
      moreover from m mk False
      have "\<forall>m. lodash_merge (JObj (data cur)) d = Some (JObj m) \<and> metaKind m = Inr DiffStaged
                 \<longrightarrow> readKey m ''state'' = readKey (data cur) ''state''"
        by auto
      ultimately show ?thesis
        by blast
    qed
  next
    case many
    with h prepareIPLDBlock_many [of s blk ca DiffStaged e d] r show ?thesis
      by simp
  qed
qed

lemma upsert_idem: "upsert r (upsert r xs) = upsert r xs"
  by (induction xs) (auto simp: sameKey_def)

lemma save_idem: "saveOrUpdateIPLDBlock (saveOrUpdateIPLDBlock s r) r = saveOrUpdateIPLDBlock s r"
  by (simp add: saveOrUpdateIPLDBlock_def upsert_idem)

lemma preparedData_existing:
  "rowsAt s (blockHash blk) ca k = [cur] \<Longrightarrow>
     preparedData s blk ca d k =
       (case lodash_merge (JObj (data cur)) d of Some (JObj m) \<Rightarrow> Inr m | _ \<Rightarrow> Inl Unmodelled)"
  by (simp add: preparedData_def rowsAt_def)

lemma prepareIPLDBlock_same:
  "preparedData s' blk ca d k = preparedData s blk ca d k \<Longrightarrow>
     prepareIPLDBlock e s' blk ca d k = prepareIPLDBlock e s blk ca d k"
  unfolding prepareIPLDBlock_def by (rule if_cong) simp_all

lemma baseMerge_obj_present:
  assumes "distinct (map fst b)" and "list_all (\<lambda>kv. wf_value (snd kv)) b"
    and "\<forall>kv\<in>set b. map_of a (fst kv) = Some (snd kv)"
  shows "baseMerge_obj a b = Some a"
  using assms
proof (induction b)
  case Nil
  then show ?case by simp
next
  case (Cons kv b)
  from Cons.prems have here: "map_of a (fst kv) = Some (snd kv)" and wf: "wf_value (snd kv)"
    by auto
  then have "readKey a (fst kv) = snd kv"
    by (simp add: readKey_def)
  with merge_idem [OF wf] here Cons show ?case
    by (simp add: update_triv)
qed

lemma second_call_same:
  assumes "wf_value d" and "createDiffStaged e s ca bh d = (Inr (), s1)"
    and "rowsAt s bh ca DiffStaged \<noteq> [] \<or> (\<exists>kvs. d = JObj kvs \<and> map_of kvs ''meta'' = None)"
  shows "createDiffStaged e s1 ca bh d = (Inr (), s1)"
proof -
  from createDiffStaged_ok [OF assms(2)] obtain blk r where
    blk: "getBlockProgress s bh = Some blk" and h: "blockHash blk = bh"
    and r: "prepareIPLDBlock e s blk ca d DiffStaged = Inr r" and s1: "s1 = saveOrUpdateIPLDBlock s r"
    by blast
  from r obtain d' where d': "preparedData s blk ca d DiffStaged = Inr d'"
    by (auto simp: prepareIPLDBlock_def split: sum.splits)
  have blk1: "getBlockProgress s1 bh = Some blk"
    using blk by (simp add: s1 getBlockProgress_def)
  have "preparedData s1 blk ca d DiffStaged = Inr d'"
  proof -
    consider (fresh) "rowsAt s bh ca DiffStaged = []"
      | (one) cur where "rowsAt s bh ca DiffStaged = [cur]"
      | (many) "1 < length (rowsAt s bh ca DiffStaged)"
      using list_length_cases [of "rowsAt s bh ca DiffStaged"] by blast
    then show ?thesis
    proof cases
      case fresh
      with assms(3) obtain kvs where kvs: "d = JObj kvs" and nometa: "map_of kvs ''meta'' = None"
        by blast
      from fresh h have none: "rowsAt s (blockHash blk) ca DiffStaged = []"
        by simp
      from prepareIPLDBlock_fresh [OF none r] kvs have
        props: "block r = blk" "contractAddress r = ca" "kind r = DiffStaged"
        and dat: "data r = AList.update ''meta''
            (newMeta blk ca DiffStaged (getLatestIPLDBlock s ca None (Some (blockNumber blk)))) kvs"
        by auto
      from d' kvs preparedData_fresh [OF none, of kvs] dat have dr: "d' = data r"
        by simp
      from props h have "rowKey r = (bh, ca, DiffStaged)"
        by (simp add: rowKey_def)
      with fresh h have one1: "rowsAt s1 (blockHash blk) ca DiffStaged = [r]"
        by (simp add: s1 rowsAt_save)
      have "\<forall>kv\<in>set kvs. map_of (data r) (fst kv) = Some (snd kv)"
      proof
        fix kv assume kv: "kv \<in> set kvs"
        from wf_entry [OF assms(1) [unfolded kvs] kv] have m: "map_of kvs (fst kv) = Some (snd kv)"
          by simp
        with nometa have "fst kv \<noteq> ''meta''"
          by auto
        with m show "map_of (data r) (fst kv) = Some (snd kv)"
          by (simp add: dat update_conv')
      qed
      with baseMerge_obj_present [of kvs "data r"] assms(1) kvs
      have "baseMerge_obj (data r) kvs = Some (data r)"
        by simp
      with preparedData_existing [OF one1, of d] kvs dr show ?thesis
        by (simp add: lodash_merge_objects)
    next
      case one
      with h have cur: "rowsAt s (blockHash blk) ca DiffStaged = [cur]"
        by simp
      from prepareIPLDBlock_existing [OF cur r] have
        m: "lodash_merge (JObj (data cur)) d = Some (JObj (data r))"
        and props: "block r = blk" "contractAddress r = ca"
        by auto
      from d' m preparedData_existing [OF cur, of d] have dr: "d' = data r"
        by simp
      show ?thesis
      proof (cases "kind r = DiffStaged")
        case True
        with props h have "rowKey r = (bh, ca, DiffStaged)"
          by (simp add: rowKey_def)
        with one h have "rowsAt s1 (blockHash blk) ca DiffStaged = [cur\<lparr>cid := cid r, data := data r\<rparr>]"
          by (simp add: s1 rowsAt_save)
        from preparedData_existing [OF this, of d] lodash_merge_again [OF assms(1) m] dr show ?thesis
          by simp
      next
        case False
        then have "rowKey r \<noteq> (bh, ca, DiffStaged)"
          by (simp add: rowKey_def)
        with one h have "rowsAt s1 (blockHash blk) ca DiffStaged = [cur]"
          by (simp add: s1 rowsAt_save)
        from preparedData_existing [OF this, of d] m dr show ?thesis
          by simp
      qed
    next
      case many
      with h prepareIPLDBlock_many [of s blk ca DiffStaged e d] r show ?thesis
        by simp
    qed
  qed
  with d' have "prepareIPLDBlock e s1 blk ca d DiffStaged = prepareIPLDBlock e s blk ca d DiffStaged"
    by (intro prepareIPLDBlock_same) simp
  with r blk1 show ?thesis
    by (simp add: createDiffStaged_def s1 save_idem)
qed

lemma prepareIPLDBlock_same_data:
  "preparedData s' blk ca d' k = preparedData s blk ca d k \<Longrightarrow>
     prepareIPLDBlock e s' blk ca d' k = prepareIPLDBlock e s blk ca d k"
  unfolding prepareIPLDBlock_def by (rule if_cong) simp_all

lemma wf_newMeta: "wf_value k \<Longrightarrow> wf_value (newMeta blk ca k p)"
  by (simp add: newMeta_def split: option.splits)

lemma wf_update:
  "wf_value (JObj kvs) \<Longrightarrow> wf_value v \<Longrightarrow> wf_value (JObj (AList.update k v kvs))"
  by (simp add: distinct_update list_all_update)

lemma second_call_mutated:
  assumes "wf_value d" and "createDiffStaged e s ca bh d = (Inr (), s1)"
    and "rowsAt s bh ca DiffStaged = []"
    and "rowsAt s1 bh ca DiffStaged = [x]"
  shows "createDiffStaged e s1 ca bh (JObj (data x)) = (Inr (), s1)"
proof -
  from createDiffStaged_ok [OF assms(2)] obtain blk r where
    blk: "getBlockProgress s bh = Some blk" and h: "blockHash blk = bh"
    and r: "prepareIPLDBlock e s blk ca d DiffStaged = Inr r" and s1: "s1 = saveOrUpdateIPLDBlock s r"
    by blast
  from r obtain d' where d': "preparedData s blk ca d DiffStaged = Inr d'"
    by (auto simp: prepareIPLDBlock_def split: sum.splits)
  have blk1: "getBlockProgress s1 bh = Some blk"
    using blk by (simp add: s1 getBlockProgress_def)
  from assms(3) h have none: "rowsAt s (blockHash blk) ca DiffStaged = []"
    by simp
  from prepareIPLDBlock_fresh [OF none r] obtain kvs where kvs: "d = JObj kvs"
    and props: "block r = blk" "contractAddress r = ca" "kind r = DiffStaged"
    and dat: "data r = AList.update ''meta''
        (newMeta blk ca DiffStaged (getLatestIPLDBlock s ca None (Some (blockNumber blk)))) kvs"
    by blast
  from d' kvs preparedData_fresh [OF none, of kvs] dat have dr: "d' = data r"
    by simp
  from props h have "rowKey r = (bh, ca, DiffStaged)"
    by (simp add: rowKey_def)
  with assms(3) have "rowsAt s1 bh ca DiffStaged = [r]"
    by (simp add: s1 rowsAt_save)
  with assms(4) h have x: "x = r" and one1: "rowsAt s1 (blockHash blk) ca DiffStaged = [r]"
    by simp_all
  have wf: "wf_value (JObj (data r))"
    unfolding dat using assms(1) kvs by (intro wf_update wf_newMeta) simp_all
  then have "\<forall>kv\<in>set (data r). map_of (data r) (fst kv) = Some (snd kv)"
    by (auto dest: wf_entry)
  with baseMerge_obj_present [of "data r" "data r"] wf
  have "baseMerge_obj (data r) (data r) = Some (data r)"
    by simp
  with preparedData_existing [OF one1, of "JObj (data r)"] d' dr
  have "preparedData s1 blk ca (JObj (data r)) DiffStaged = preparedData s blk ca d DiffStaged"
    by (simp add: lodash_merge_objects)
  then have "prepareIPLDBlock e s1 blk ca (JObj (data r)) DiffStaged = prepareIPLDBlock e s blk ca d DiffStaged"
    by (rule prepareIPLDBlock_same_data)
  with r blk1 x show ?thesis
    by (simp add: createDiffStaged_def s1 save_idem)
qed

text \<open>
  Claim C8. Merging a value (whose objects hold no key twice) with itself gives the value
  back. After a successful \<^verbatim>\<open>createDiffStaged\<close> for a block and contract with partial state
  \<open>d\<close> there is one staged row for them, and a second call with the same \<open>d\<close>, whatever its
  outcome, leaves the state of that row as the first call left it. When \<open>d\<close> is an object
  without a \<^verbatim>\<open>meta\<close> entry, or a staged row was there before the first call, the second
  call succeeds and the store after it is the store after the first call. The same holds
  when the first call created the row and the second call is given the caller's object
  as the first call left it, with \<^verbatim>\<open>meta\<close> set: that object is the payload of the row.
\<close>

theorem createDiffStaged_twice:
  assumes "wf_value d" and "createDiffStaged e s ca bh d = (Inr (), s1)"
  shows "mergeValue d d = Some d \<and>
         length (rowsAt s1 bh ca DiffStaged) = 1 \<and>
         map stateOf (rowsAt (snd (createDiffStaged e s1 ca bh d)) bh ca DiffStaged)
           = map stateOf (rowsAt s1 bh ca DiffStaged) \<and>
         (rowsAt s bh ca DiffStaged \<noteq> [] \<or> (\<exists>kvs. d = JObj kvs \<and> map_of kvs ''meta'' = None)
            \<longrightarrow> createDiffStaged e s1 ca bh d = (Inr (), s1)) \<and>
         (rowsAt s bh ca DiffStaged = []
            \<longrightarrow> (\<forall>x. rowsAt s1 bh ca DiffStaged = [x]
                   \<longrightarrow> createDiffStaged e s1 ca bh (JObj (data x)) = (Inr (), s1)))"
proof (intro conjI impI allI)
  assume "rowsAt s bh ca DiffStaged \<noteq> [] \<or> (\<exists>kvs. d = JObj kvs \<and> map_of kvs ''meta'' = None)"
  with assms show "createDiffStaged e s1 ca bh d = (Inr (), s1)"
    by (rule second_call_same)
next
  fix x assume "rowsAt s bh ca DiffStaged = []" "rowsAt s1 bh ca DiffStaged = [x]"
  with assms show "createDiffStaged e s1 ca bh (JObj (data x)) = (Inr (), s1)"
    by (rule second_call_mutated)
next
  show "mergeValue d d = Some d"
    using assms(1) by (rule merge_idem)
  from staged_after_first [OF assms] obtain x where
    x: "rowsAt s1 bh ca DiffStaged = [x]"
    and keep: "\<forall>m. lodash_merge (JObj (data x)) d = Some (JObj m) \<and> metaKind m = Inr DiffStaged
                 \<longrightarrow> readKey m ''state'' = readKey (data x) ''state''"
    by blast
  from x show "length (rowsAt s1 bh ca DiffStaged) = 1"
    by simp
  obtain res s2 where second: "createDiffStaged e s1 ca bh d = (res, s2)"
    by (cases "createDiffStaged e s1 ca bh d") blast
  from createDiffStaged_cases [OF second] consider "s2 = s1"
    | blk r where "getBlockProgress s1 bh = Some blk" "prepareIPLDBlock e s1 blk ca d DiffStaged = Inr r"
        "s2 = saveOrUpdateIPLDBlock s1 r"
    by blast
  then have "map stateOf (rowsAt s2 bh ca DiffStaged) = map stateOf (rowsAt s1 bh ca DiffStaged)"
  proof cases
    case 1
    then show ?thesis by simp
  next
    case 2
    from 2(1) have h: "blockHash blk = bh"
      by (rule getBlockProgress_hash)
    with x have cur: "rowsAt s1 (blockHash blk) ca DiffStaged = [x]"
      by simp
    from prepareIPLDBlock_existing [OF cur 2(2)] have
      m: "lodash_merge (JObj (data x)) d = Some (JObj (data r))"
      and mk: "metaKind (data r) = Inr (kind r)"
      by auto
    show ?thesis
    proof (cases "rowKey r = (bh, ca, DiffStaged)")
      case True
      then have "kind r = DiffStaged"
        by (simp add: rowKey_def)
      with keep m mk have "readKey (data r) ''state'' = readKey (data x) ''state''"
        by simp
      with True x show ?thesis
        by (simp add: 2(3) rowsAt_save stateOf_def)
    next
      case False
      then show ?thesis
        by (simp add: 2(3) rowsAt_save)
    qed
  qed
  with second show "map stateOf (rowsAt (snd (createDiffStaged e s1 ca bh d)) bh ca DiffStaged)
           = map stateOf (rowsAt s1 bh ca DiffStaged)"
    by simp
qed


theorem createDiffStaged_twice_witness:
  "wf_value (JObj [(''state'', balance 50)]) \<and>
   fst (createDiffStaged env0 (chainStore 110 [checkpoint100]) ''C'' ''0x69'' (JObj [(''state'', balance 50)]))
     = Inr () \<and>
   mergeValue (JObj [(''state'', balance 50)]) (JObj [(''state'', balance 50)])
     = Some (JObj [(''state'', balance 50)]) \<and>
   map_of [(''state'', balance 50)] ''meta'' = None \<and>
   createDiffStaged env0
       (snd (createDiffStaged env0 (chainStore 110 [checkpoint100]) ''C'' ''0x69'' (JObj [(''state'', balance 50)])))
       ''C'' ''0x69'' (JObj [(''state'', balance 50)])
     = (Inr (),
        snd (createDiffStaged env0 (chainStore 110 [checkpoint100]) ''C'' ''0x69'' (JObj [(''state'', balance 50)])))"
proof -
  let ?s = "chainStore 110 [checkpoint100]"
  let ?d = "JObj [(''state'', balance 50)]"
  have a: "wf_value ?d"
    by (simp add: balance_def)
  have b0: "fst (createDiffStaged env0 ?s ''C'' ''0x69'' ?d) = Inr ()"
    by code_simp
  then have b: "createDiffStaged env0 ?s ''C'' ''0x69'' ?d = (Inr (), snd (createDiffStaged env0 ?s ''C'' ''0x69'' ?d))"
    by (metis prod.collapse)
  have c: "map_of [(''state'', balance 50)] ''meta'' = None"
    by simp
  from createDiffStaged_twice [OF a b] c have
    t1: "mergeValue ?d ?d = Some ?d"
    and t2: "createDiffStaged env0 (snd (createDiffStaged env0 ?s ''C'' ''0x69'' ?d)) ''C'' ''0x69'' ?d
      = (Inr (), snd (createDiffStaged env0 ?s ''C'' ''0x69'' ?d))"
    by blast+
  from a b0 t1 c t2 show ?thesis
    by (intro conjI)
qed

subsection \<open>Identifiers\<close>

lemma encode_entries_eq:
  "encode_entries kvs =
     (if list_all (\<lambda>kv. encodable (snd kv)) kvs
      then Some (map (\<lambda>kv. (fst kv, the (dag_cbor_encode (snd kv)))) kvs) else None)"
  by (induction kvs) (auto simp: encodable_def split: option.splits)

lemma encode_items_eq:
  "list_all2 (\<lambda>x y. dag_cbor_encode x = dag_cbor_encode y) xs ys \<Longrightarrow> encode_items xs = encode_items ys"
  by (induction xs ys rule: list_all2_induct) (auto split: option.splits)

lemma key_order_inj: "distinct (map fst es) \<Longrightarrow> inj_on key_order (set es)"
  by (auto simp: inj_on_def key_order_def distinct_map)

lemma sort_by_key_unique:
  assumes "distinct (map fst es)" and "distinct (map fst es')" and "set es = set es'"
  shows "sort_key key_order es = sort_key key_order es'"
proof -
  let ?as = "sort_key key_order es" and ?bs = "sort_key key_order es'"
  have inj: "inj_on key_order (set es)"
    using assms(1) by (rule key_order_inj)
  have d: "distinct es" "distinct es'"
    using assms(1,2) by (simp_all add: distinct_map)
  have "distinct (map key_order ?as)" "distinct (map key_order ?bs)"
    using inj d assms(3) by (auto simp: distinct_map)
  moreover have "sorted (map key_order ?as)" "sorted (map key_order ?bs)"
    by simp_all
  moreover have "set (map key_order ?as) = set (map key_order ?bs)"
    using assms(3) by simp
  ultimately have "map key_order ?as = map key_order ?bs"
    by (intro sorted_distinct_set_unique)
  moreover have "inj_on key_order (set ?as \<union> set ?bs)"
    using inj assms(3) by simp
  ultimately show ?thesis
    by (simp add: inj_on_map_eq_map)
qed

lemma cbor_map_set:
  assumes "distinct (map fst es)" and "distinct (map fst es')" and "set es = set es'"
  shows "cbor_map es = cbor_map es'"
proof -
  have "distinct es" "distinct es'"
    using assms(1,2) by (simp_all add: distinct_map)
  with assms(3) have "length es = length es'"
    by (metis distinct_card)
  with sort_by_key_unique [OF assms] show ?thesis
    by (simp add: cbor_map_def)
qed

lemma structEq_encode:
  "wf_value a \<Longrightarrow> wf_value b \<Longrightarrow> structEq a b \<Longrightarrow> dag_cbor_encode a = dag_cbor_encode b"
proof (induction a arbitrary: b)
  case (JArr xs)
  show ?case
  proof (cases b)
    case (JArr ys)
    with JArr.prems have all: "list_all2 structEq xs ys" and wx: "list_all wf_value xs" and wy: "list_all wf_value ys"
      by auto
    have "list_all2 (\<lambda>x y. dag_cbor_encode x = dag_cbor_encode y) xs ys"
      using all wx wy JArr.IH
      by (auto simp: list_all2_conv_all_nth list_all_length)
    from encode_items_eq [OF this] all JArr show ?thesis
      by (simp add: list_all2_lengthD)
  qed (use JArr.prems in auto)
next
  case (JObj kvs)
  show ?case
  proof (cases b)
    case b: (JObj kvs')
    let ?E = "\<lambda>kvs. map (\<lambda>kv. (fst kv, dag_cbor_encode (snd kv))) kvs"
    from JObj.prems b have d: "distinct (map fst kvs)" and d': "distinct (map fst kvs')"
      and w: "list_all (\<lambda>kv. wf_value (snd kv)) kvs" and w': "list_all (\<lambda>kv. wf_value (snd kv)) kvs'"
      by auto
    from JObj.prems(3) b have se: "structEq (JObj kvs) (JObj kvs')"
      by simp
    then have keys: "fst ` set kvs = fst ` set kvs'"
      by simp
    from se have each: "\<forall>kv\<in>set kvs. \<exists>v'. map_of kvs' (fst kv) = Some v' \<and> structEq (snd kv) v'"
      by (auto simp: list_all_iff split: option.splits)
    have enc: "\<forall>kv\<in>set kvs. \<exists>v'. (fst kv, v') \<in> set kvs' \<and> dag_cbor_encode (snd kv) = dag_cbor_encode v'"
    proof
      fix kv assume kv: "kv \<in> set kvs"
      with each obtain v' where v': "map_of kvs' (fst kv) = Some v'" "structEq (snd kv) v'"
        by blast
      then have mem: "(fst kv, v') \<in> set kvs'"
        by (auto dest: map_of_SomeD)
      with w' have "wf_value v'"
        by (auto simp: list_all_iff)
      moreover from kv w have "wf_value (snd kv)"
        by (auto simp: list_all_iff)
      moreover have "snd kv \<in> Basic_BNFs.snds kv"
        by (cases kv) simp
      ultimately have "dag_cbor_encode (snd kv) = dag_cbor_encode v'"
        using JObj.IH [OF kv] v'(2) by blast
      with mem show "\<exists>v'. (fst kv, v') \<in> set kvs' \<and> dag_cbor_encode (snd kv) = dag_cbor_encode v'"
        by blast
    qed
    have sub: "set (?E kvs) \<subseteq> set (?E kvs')"
    proof
      fix e assume "e \<in> set (?E kvs)"
      then obtain kv where kv: "kv \<in> set kvs" "e = (fst kv, dag_cbor_encode (snd kv))"
        by auto
      with enc obtain v' where "(fst kv, v') \<in> set kvs'" "dag_cbor_encode (snd kv) = dag_cbor_encode v'"
        by blast
      with kv(2) show "e \<in> set (?E kvs')"
        by (auto simp: image_iff intro!: bexI [of _ "(fst kv, v')"])
    qed
    have sup: "set (?E kvs') \<subseteq> set (?E kvs)"
    proof
      fix e assume "e \<in> set (?E kvs')"
      then obtain kv' where kv': "kv' \<in> set kvs'" "e = (fst kv', dag_cbor_encode (snd kv'))"
        by auto
      from kv'(1) keys have "fst kv' \<in> fst ` set kvs"
        by auto
      then obtain kv where kv: "kv \<in> set kvs" "fst kv = fst kv'"
        by auto
      with enc obtain v' where v': "(fst kv, v') \<in> set kvs'" "dag_cbor_encode (snd kv) = dag_cbor_encode v'"
        by blast
      from kv'(1) kv(2) have "(fst kv, snd kv') \<in> set kvs'"
        by simp
      with d' v'(1) have "v' = snd kv'"
        by (rule eq_key_imp_eq_value)
      with v'(2) kv kv'(2) show "e \<in> set (?E kvs)"
        by (auto simp: image_iff intro!: bexI [of _ kv])
    qed
    from sub sup have E: "set (?E kvs) = set (?E kvs')"
      by blast
    have ok: "list_all (\<lambda>kv. encodable (snd kv)) kvs \<longleftrightarrow> list_all (\<lambda>kv. encodable (snd kv)) kvs'"
    proof -
      have char: "list_all (\<lambda>kv. encodable (snd kv)) l \<longleftrightarrow> None \<notin> snd ` set (?E l)" for l
        by (induction l) (auto simp: encodable_def)
      show ?thesis
        unfolding char E ..
    qed
    let ?G = "\<lambda>kvs. map (\<lambda>kv. (fst kv, the (dag_cbor_encode (snd kv)))) kvs"
    have G: "?G l = map (\<lambda>e. (fst e, the (snd e))) (?E l)" for l
      by simp
    have "set (?G kvs) = set (?G kvs')"
      unfolding G using E by (metis (no_types, lifting) set_map)
    moreover have fstG: "map fst (?G l) = map fst l" for l
      by (induction l) simp_all
    have "distinct (map fst (?G kvs))"
      unfolding fstG by (fact d)
    moreover have "distinct (map fst (?G kvs'))"
      unfolding fstG by (fact d')
    ultimately have "cbor_map (?G kvs) = cbor_map (?G kvs')"
      by (intro cbor_map_set)
    with ok b show ?thesis
      by (simp add: encode_entries_eq)
  qed (use JObj.prems in auto)
qed auto

lemma prepareIPLDBlock_cid:
  assumes "prepareIPLDBlock e s blk ca d k = Inr r"
  shows "\<exists>c. computeCid (sha256 e) (JObj (data r)) = Some c \<and> cid r = CID_toString c"
  using assms by (auto simp: prepareIPLDBlock_def split: sum.splits option.splits if_splits)

text \<open>
  Claim C9. The identifier is a function of the payload alone: two payloads that are
  structurally equal (the same entries under the same keys, whatever the order of the
  keys, in objects that hold no key twice) have the same DAG-CBOR bytes and the same
  identifier, and the encoder refuses both or neither. The identifier has version 1, the
  codec's code \<open>0x71\<close> and the sha2-256 multihash of the bytes; the identifier of a row
  that \<^verbatim>\<open>prepareIPLDBlock\<close> returns is the text of the identifier of the row's payload.
\<close>

theorem identifier_deterministic:
  assumes "wf_value a" and "wf_value b" and "structEq a b"
  shows "dag_cbor_encode a = dag_cbor_encode b \<and>
         computeCid h a = computeCid h b \<and>
         (\<forall>c. computeCid h a = Some c \<longrightarrow>
              version c = 1 \<and> code c = 0x71 \<and>
              (\<exists>bytes. dag_cbor_encode a = Some bytes \<and>
                       multihash c = 0x12 # of_nat (length (h bytes)) # h bytes)) \<and>
         (\<forall>e s blk ca k r. prepareIPLDBlock e s blk ca a k = Inr r \<longrightarrow>
              (\<exists>c. computeCid (sha256 e) (JObj (data r)) = Some c \<and> cid r = CID_toString c))"
proof -
  from assms have enc: "dag_cbor_encode a = dag_cbor_encode b"
    by (rule structEq_encode)
  then have "computeCid h a = computeCid h b"
    by (simp add: computeCid_def)
  moreover have "\<forall>c. computeCid h a = Some c \<longrightarrow>
              version c = 1 \<and> code c = 0x71 \<and>
              (\<exists>bytes. dag_cbor_encode a = Some bytes \<and>
                       multihash c = 0x12 # of_nat (length (h bytes)) # h bytes)"
    by (auto simp: computeCid_def CID_create_def dag_cbor_code_def sha256_digest_def split: option.splits)
  moreover have "\<forall>e s blk ca k r. prepareIPLDBlock e s blk ca a k = Inr r \<longrightarrow>
              (\<exists>c. computeCid (sha256 e) (JObj (data r)) = Some c \<and> cid r = CID_toString c)"
    using prepareIPLDBlock_cid by blast
  ultimately show ?thesis
    using enc by blast
qed

theorem identifier_deterministic_witness:
  "wf_value (JObj [(''a'', JInt 1), (''bb'', JArr [JNull, JStr ''x''])]) \<and>
   wf_value (JObj [(''bb'', JArr [JNull, JStr ''x'']), (''a'', JInt 1)]) \<and>
   structEq (JObj [(''a'', JInt 1), (''bb'', JArr [JNull, JStr ''x''])])
            (JObj [(''bb'', JArr [JNull, JStr ''x'']), (''a'', JInt 1)]) \<and>
   JObj [(''a'', JInt 1), (''bb'', JArr [JNull, JStr ''x''])]
     \<noteq> JObj [(''bb'', JArr [JNull, JStr ''x'']), (''a'', JInt 1)] \<and>
   dag_cbor_encode (JObj [(''a'', JInt 1), (''bb'', JArr [JNull, JStr ''x''])])
     = dag_cbor_encode (JObj [(''bb'', JArr [JNull, JStr ''x'']), (''a'', JInt 1)]) \<and>
   computeCid (sha256 env0) (JObj [(''a'', JInt 1), (''bb'', JArr [JNull, JStr ''x''])])
     = computeCid (sha256 env0) (JObj [(''bb'', JArr [JNull, JStr ''x'']), (''a'', JInt 1)])"
proof -
  let ?a = "JObj [(''a'', JInt 1), (''bb'', JArr [JNull, JStr ''x''])]"
  let ?b = "JObj [(''bb'', JArr [JNull, JStr ''x'']), (''a'', JInt 1)]"
  have a: "wf_value ?a" and b: "wf_value ?b"
    by simp_all
  have c: "structEq ?a ?b"
    by auto
  have d: "?a \<noteq> ?b"
    by simp
  from identifier_deterministic [OF a b c, of "sha256 env0"] have
    "dag_cbor_encode ?a = dag_cbor_encode ?b" "computeCid (sha256 env0) ?a = computeCid (sha256 env0) ?b"
    by blast+
  with a b c d show ?thesis
    by (intro conjI)
qed

end
